theory Spec2Isabelle
  imports Complex_Main "HOL-Library.Stream"
begin

section \<open>Shared building blocks\<close>

text \<open>
  Both seed scripts of the repository are modelled: \<^verbatim>\<open>seed/scripts/generate-listings.ts\<close>
  (the listing synthesizer) and \<^verbatim>\<open>seed/scripts/fetch-images.ts\<close> (the image fetcher).
  Exceptions are values of the type \<open>error\<close>; a function that can throw returns
  \<open>error + 'a\<close>.
\<close>

datatype error =
    FakerError          \<comment> \<open>faker: \<open>max\<close> below \<open>min\<close>, or an element of an empty array\<close>
  | ReadOfUndefined     \<comment> \<open>TypeError: cannot read properties of undefined / null\<close>
  | NotAFunction        \<comment> \<open>TypeError: \<open>x.push\<close> / \<open>x.reduce\<close> is not a function\<close>
  | ReadFailed          \<comment> \<open>\<open>fs.readFile\<close> rejected\<close>
  | SyntaxError         \<comment> \<open>\<open>JSON.parse\<close> threw\<close>

text \<open>
  \<open>new Set(xs)\<close> keeps one copy of every element, in the order of first insertion;
  spreading it back into an array gives \<open>js_set xs\<close>.
\<close>

definition set_add :: "'a list \<Rightarrow> 'a \<Rightarrow> 'a list" where
  "set_add s x = (if x \<in> set s then s else s @ [x])"

definition js_set :: "'a list \<Rightarrow> 'a list" where
  "js_set xs = fold (\<lambda>x s. set_add s x) xs []"

section \<open>The random source\<close>

text \<open>
  The synthesizer draws from \<open>faker\<close> and \<open>Math.random\<close>. The random source is an
  explicit state: an infinite stream of raw numbers, one consumed per draw. Each library
  call is modelled by its documented contract on top of the raw number, so that every
  result the library can return is the result for some stream.
\<close>

type_synonym rng = "nat stream"

text \<open>\<open>faker.number.int({min, max})\<close>: an integer of the closed range; throws when \<open>max < min\<close>.\<close>

definition number_int :: "rng \<Rightarrow> int \<Rightarrow> int \<Rightarrow> error + (int \<times> rng)" where
  "number_int g lo hi =
     (if hi < lo then Inl FakerError
      else Inr (lo + int (shd g) mod (hi - lo + 1), stl g))"

text \<open>\<open>faker.helpers.arrayElement(xs)\<close>: one element of a non-empty array.\<close>

definition arrayElement :: "rng \<Rightarrow> 'a list \<Rightarrow> error + ('a \<times> rng)" where
  "arrayElement g xs =
     (if xs = [] then Inl FakerError else Inr (xs ! (shd g mod length xs), stl g))"

text \<open>
  \<open>faker.helpers.arrayElements(xs, count)\<close>: \<open>min count (length xs)\<close> elements taken from
  distinct positions of \<open>xs\<close>, in random order.
\<close>

fun arrayElements :: "rng \<Rightarrow> 'a list \<Rightarrow> nat \<Rightarrow> 'a list \<times> rng" where
  "arrayElements g xs 0 = ([], g)"
| "arrayElements g xs (Suc k) =
     (if xs = [] then ([], g)
      else let i = shd g mod length xs;
               (ys, g') = arrayElements (stl g) (take i xs @ drop (Suc i) xs) k
           in (xs ! i # ys, g'))"

section \<open>Listing synthesizer: data\<close>

record ImageData =
  img_id :: string
  img_url :: string
  img_thumbnailUrl :: string
  img_category :: string
  img_tags :: "string list"
  img_color :: string
  img_source :: string
  img_photographer :: string
  img_photographerUrl :: string

datatype condition = New | Excellent | Good | Fair

fun condition_str :: "condition \<Rightarrow> string" where
  "condition_str New = ''new''"
| "condition_str Excellent = ''excellent''"
| "condition_str Good = ''good''"
| "condition_str Fair = ''fair''"

text \<open>
  The fields of \<open>Listing\<close> that are pure text or time (\<open>id\<close>, \<open>title\<close>, \<open>slug\<close>,
  \<open>description\<close>, \<open>dimensions\<close>, \<open>createdAt\<close>) are synthesized from further random draws
  and feed no other field; they are left out of the record.
\<close>

record Listing =
  price_ngn :: int
  city :: string
  condition :: condition
  materials :: "string list"
  images :: "string list"
  category :: string
  tags :: "string list"
  stock :: int
  featured :: bool

definition NIGERIAN_CITIES :: "string list" where
  "NIGERIAN_CITIES =
     [''Lagos'', ''Port Harcourt'', ''Abuja'', ''Ibadan'', ''Kano'',
      ''Enugu'', ''Aba'', ''Onitsha'', ''Kaduna'', ''Warri'',
      ''Benin City'', ''Jos'', ''Abeokuta'', ''Akure'', ''Owerri'']"

definition PRICE_RANGES :: "(string \<times> (int \<times> int)) list" where
  "PRICE_RANGES =
     [(''sofa'', (45000, 350000)),
      (''dining-table'', (55000, 280000)),
      (''bed'', (38000, 185000)),
      (''wardrobe'', (52000, 220000)),
      (''desk'', (28000, 125000)),
      (''outdoor'', (65000, 250000)),
      (''storage'', (22000, 95000)),
      (''chair'', (15000, 85000)),
      (''coffee-table'', (18000, 78000)),
      (''entertainment'', (25000, 110000))]"

definition MATERIALS_BY_CATEGORY :: "(string \<times> string list) list" where
  "MATERIALS_BY_CATEGORY =
     [(''sofa'', [''leather'', ''fabric'', ''velvet'', ''suede'', ''microfiber'']),
      (''dining-table'', [''wood'', ''mahogany'', ''iroko'', ''oak'', ''glass'', ''marble'']),
      (''bed'', [''wood'', ''metal'', ''upholstered'', ''leather'', ''velvet'']),
      (''wardrobe'', [''wood'', ''plywood'', ''MDF'', ''solid wood'', ''laminate'']),
      (''desk'', [''wood'', ''metal'', ''glass'', ''engineered wood'']),
      (''outdoor'', [''wicker'', ''rattan'', ''teak'', ''aluminum'', ''plastic'']),
      (''storage'', [''wood'', ''metal'', ''bamboo'', ''MDF'']),
      (''chair'', [''wood'', ''metal'', ''fabric'', ''leather'', ''plastic'']),
      (''coffee-table'', [''wood'', ''glass'', ''metal'', ''marble'', ''acrylic'']),
      (''entertainment'', [''wood'', ''MDF'', ''glass'', ''metal''])]"

text \<open>\<open>TABLE[key] || fallback\<close> on a table given as an object literal.\<close>

definition lookup_or :: "(string \<times> 'a) list \<Rightarrow> string \<Rightarrow> 'a \<Rightarrow> 'a" where
  "lookup_or table k d = (case map_of table k of Some v \<Rightarrow> v | None \<Rightarrow> d)"

section \<open>Listing synthesizer: one listing\<close>

text \<open>
  \<open>faker.helpers.weightedArrayElement\<close> over the four conditions with the weights
  0.6, 0.25, 0.1 and 0.05.
\<close>

definition weightedCondition :: "rng \<Rightarrow> condition \<times> rng" where
  "weightedCondition g =
     (let r = shd g mod 100
      in (if r < 60 then New else if r < 85 then Excellent
          else if r < 95 then Good else Fair, stl g))"

fun conditionMultipliers :: "condition \<Rightarrow> rat" where
  "conditionMultipliers New = 1"
| "conditionMultipliers Excellent = 85 / 100"
| "conditionMultipliers Good = 65 / 100"
| "conditionMultipliers Fair = 45 / 100"

text \<open>\<open>Math.round\<close>: the nearest integer, a tie going up.\<close>

definition Math_round :: "rat \<Rightarrow> int" where
  "Math_round x = \<lfloor>x + 1 / 2\<rfloor>"

text \<open>
  Line 289, \<open>Math.round(basePrice * conditionMultipliers[condition] / 1000) * 1000\<close>.
  The source evaluates the product and the quotient in IEEE-754 doubles, the model in
  exact rationals; for the four multipliers and every base price from 0 to 1000000, a
  range that covers \<open>PRICE_RANGES\<close> and the fallback range, the double result is the
  exact one.
\<close>

definition price_of :: "int \<Rightarrow> condition \<Rightarrow> int" where
  "price_of basePrice c =
     Math_round (of_int basePrice * conditionMultipliers c / 1000) * 1000"

text \<open>
  \<open>generateListing\<close>, lines 263 to 313. The draws are made in the order of the source:
  condition, number of materials, materials, city, base price, featured, stock.
  \<open>images[0]\<close> of an empty array is \<open>undefined\<close>, and reading its \<open>category\<close> throws.
  The two table lookups are those of an ordinary key; \<open>generateAllListings\<close>, the only
  caller, has thrown before it gets here for a key that an object literal inherits
  (see \<open>object_prototype_keys\<close> below).
\<close>

definition generateListing :: "rng \<Rightarrow> ImageData list \<Rightarrow> error + (Listing \<times> rng)" where
  "generateListing g imgs =
     (case imgs of
        [] \<Rightarrow> Inl ReadOfUndefined
      | first # _ \<Rightarrow>
          (let cat = img_category first;
               (cond, g1) = weightedCondition g
           in (case number_int g1 1 2 of
                 Inl e \<Rightarrow> Inl e
               | Inr (cnt, g2) \<Rightarrow>
                   (let (mats, g3) =
                          arrayElements g2
                            (lookup_or MATERIALS_BY_CATEGORY cat [''wood'', ''metal''])
                            (nat cnt)
                    in (case arrayElement g3 NIGERIAN_CITIES of
                          Inl e \<Rightarrow> Inl e
                        | Inr (cty, g4) \<Rightarrow>
                            (let (lo, hi) = lookup_or PRICE_RANGES cat (20000, 150000)
                             in (case number_int g4 lo hi of
                                   Inl e \<Rightarrow> Inl e
                                 | Inr (basePrice, g5) \<Rightarrow>
                                     (let price = price_of basePrice cond;
                                          feat = (shd g5 mod 10 = 0)
                                      in (case number_int (stl g5) 1 8 of
                                            Inl e \<Rightarrow> Inl e
                                          | Inr (stk, g6) \<Rightarrow>
                                              Inr (\<lparr>price_ngn = price,
                                                    city = cty,
                                                    condition = cond,
                                                    materials = mats,
                                                    images = map img_url imgs,
                                                    category = cat,
                                                    tags = js_set
                                                      (img_tags first @ [cat] @ mats
                                                         @ [condition_str cond]),
                                                    stock = stk,
                                                    featured = feat\<rparr>, g6))))))))))"

section \<open>Listing synthesizer: grouping and slicing\<close>

text \<open>
  \<open>imagesByCategory\<close> is an object literal \<open>{}\<close> used as a dictionary (lines 320 to 324).
  It inherits the properties of \<open>Object.prototype\<close>: for such a key
  \<open>acc[k] || []\<close> is the inherited value, which has no \<open>push\<close>, and the reducer throws.
\<close>

definition object_prototype_keys :: "string list" where
  "object_prototype_keys =
     [''constructor'', ''__defineGetter__'', ''__defineSetter__'', ''hasOwnProperty'',
      ''__lookupGetter__'', ''__lookupSetter__'', ''isPrototypeOf'',
      ''propertyIsEnumerable'', ''toString'', ''valueOf'', ''__proto__'',
      ''toLocaleString'']"

type_synonym groups = "(string \<times> ImageData list) list"

text \<open>The own properties, in creation order: \<open>acc[k] = acc[k] || []; acc[k].push(img)\<close>.\<close>

fun push_group :: "groups \<Rightarrow> string \<Rightarrow> ImageData \<Rightarrow> groups" where
  "push_group [] k img = [(k, [img])]"
| "push_group ((k', xs) # rest) k img =
     (if k' = k then (k', xs @ [img]) # rest else (k', xs) # push_group rest k img)"

fun group_images :: "ImageData list \<Rightarrow> groups \<Rightarrow> error + groups" where
  "group_images [] acc = Inr acc"
| "group_images (img # rest) acc =
     (if img_category img \<in> set object_prototype_keys then Inl NotAFunction
      else group_images rest (push_group acc (img_category img) img))"

text \<open>
  \<open>Object.entries\<close> lists the keys that are array indices (canonical decimal numerals
  below \<open>2^32 - 1\<close>) first, in ascending numeric order, and then the other keys in
  creation order.
\<close>

definition digit_value :: "char \<Rightarrow> nat" where
  "digit_value c = of_char c - of_char CHR ''0''"

definition index_value :: "string \<Rightarrow> nat" where
  "index_value s = fold (\<lambda>c n. 10 * n + digit_value c) s 0"

definition is_array_index :: "string \<Rightarrow> bool" where
  "is_array_index s =
     (s \<noteq> [] \<and> list_all (\<lambda>c. c \<in> set ''0123456789'') s
      \<and> (s = ''0'' \<or> hd s \<noteq> CHR ''0'') \<and> index_value s < 4294967295)"

definition entries :: "(string \<times> 'a) list \<Rightarrow> (string \<times> 'a) list" where
  "entries obj =
     sort_key (\<lambda>kv. index_value (fst kv)) (filter (\<lambda>kv. is_array_index (fst kv)) obj)
     @ filter (\<lambda>kv. \<not> is_array_index (fst kv)) obj"

text \<open>
  The \<open>while\<close> loop of lines 333 to 342 over one group. Each round draws the window size,
  slices the window, and calls \<open>generateListing\<close> on it. The loop returns, for every call
  of \<open>generateListing\<close>, the window that was passed together with the listing that came
  back; \<open>categoryListings\<close> of the source is the list of the second components.
  \<open>slice(i, i + n)\<close> is \<open>take n (drop i xs)\<close>.
\<close>

type_synonym calls = "(ImageData list \<times> Listing) list"

function slice_loop :: "rng \<Rightarrow> ImageData list \<Rightarrow> nat \<Rightarrow> calls \<Rightarrow> error + (calls \<times> rng)" where
  "slice_loop g categoryImages i acc =
     (if i < length categoryImages then
        case number_int g 1 (min 5 (int (length categoryImages) - int i)) of
          Inl e \<Rightarrow> Inl e
        | Inr (imagesPerListing, g1) \<Rightarrow>
            (let listingImages = take (nat imagesPerListing) (drop i categoryImages)
             in (case generateListing g1 listingImages of
                   Inl e \<Rightarrow> Inl e
                 | Inr (listing, g2) \<Rightarrow>
                     slice_loop g2 categoryImages (i + nat imagesPerListing)
                       (acc @ [(listingImages, listing)])))
      else Inr (acc, g))"
  by pat_completeness auto
termination
proof (relation "measure (\<lambda>(g, categoryImages, i, acc). length categoryImages - i)")
  show "wf (measure (\<lambda>(g, categoryImages, i, acc). length categoryImages - i))"
    by simp
next
  fix g :: rng and categoryImages :: "ImageData list" and i :: nat and acc :: calls
    and x2 x y and listingImages x2a xa ya
  assume lt: "i < length categoryImages"
    and draw: "number_int g 1 (min 5 (int (length categoryImages) - int i)) = Inr x2"
    and x2: "(x, y) = x2"
  from draw x2 have "1 \<le> x"
    by (auto simp: number_int_def split: if_splits)
  with lt show "((xa, categoryImages, i + nat x, acc @ [(listingImages, ya)]),
                 (g, categoryImages, i, acc))
        \<in> measure (\<lambda>(g, categoryImages, i, acc). length categoryImages - i)"
    by simp
qed

declare slice_loop.simps [simp del]

text \<open>The \<open>for ... of Object.entries(imagesByCategory)\<close> loop of lines 327 to 346.\<close>

fun entries_loop :: "rng \<Rightarrow> groups \<Rightarrow> calls \<Rightarrow> error + (calls \<times> rng)" where
  "entries_loop g [] listings = Inr (listings, g)"
| "entries_loop g ((cat, categoryImages) # rest) listings =
     (case slice_loop g categoryImages 0 [] of
        Inl e \<Rightarrow> Inl e
      | Inr (categoryListings, g') \<Rightarrow> entries_loop g' rest (listings @ categoryListings))"

text \<open>Every call of \<open>generateListing\<close> made by one run of \<open>generateAllListings\<close>, in order.\<close>

definition synthesis_calls :: "rng \<Rightarrow> ImageData list \<Rightarrow> error + calls" where
  "synthesis_calls g imgs =
     (case group_images imgs [] of
        Inl e \<Rightarrow> Inl e
      | Inr imagesByCategory \<Rightarrow>
          (case entries_loop g (entries imagesByCategory) [] of
             Inl e \<Rightarrow> Inl e
           | Inr (cs, g') \<Rightarrow> Inr cs))"

section \<open>Listing synthesizer: the catalog and the job\<close>

record ListingMeta =
  totalListings :: nat
  totalImages :: nat
  categories :: "string list"
  generatedAt :: string
  priceRange_min :: "int option"
  priceRange_max :: "int option"

record ListingCatalog =
  meta :: ListingMeta
  listings :: "Listing list"

text \<open>
  \<open>Math.min(...ps)\<close> and \<open>Math.max(...ps)\<close>. With no argument they are \<open>Infinity\<close> and
  \<open>-Infinity\<close>, which \<open>JSON.stringify\<close> writes as \<open>null\<close>: \<open>None\<close> here.
\<close>

definition Math_min :: "int list \<Rightarrow> int option" where
  "Math_min ps = (case ps of [] \<Rightarrow> None | p # qs \<Rightarrow> Some (fold min qs p))"

definition Math_max :: "int list \<Rightarrow> int option" where
  "Math_max ps = (case ps of [] \<Rightarrow> None | p # qs \<Rightarrow> Some (fold max qs p))"

text \<open>
  \<open>generateAllListings\<close>, lines 316 to 390, with the clock as a parameter. The result is the
  object written to \<open>listings_large.json\<close>; the statistics printed afterwards (an average
  that is \<open>NaN\<close> for no listing) throw nothing.
\<close>

definition generateAllListings :: "rng \<Rightarrow> string \<Rightarrow> ImageData list \<Rightarrow> error + ListingCatalog" where
  "generateAllListings g now imgs =
     (case group_images imgs [] of
        Inl e \<Rightarrow> Inl e
      | Inr imagesByCategory \<Rightarrow>
          (case synthesis_calls g imgs of
             Inl e \<Rightarrow> Inl e
           | Inr cs \<Rightarrow>
               let ls = map snd cs
               in Inr \<lparr>meta = \<lparr>totalListings = length ls,
                               totalImages = length imgs,
                               categories = map fst (entries imagesByCategory),
                               generatedAt = now,
                               priceRange_min = Math_min (map price_ngn ls),
                               priceRange_max = Math_max (map price_ngn ls)\<rparr>,
                       listings = ls\<rparr>))"

text \<open>
  What \<open>fs.readFile\<close> and \<open>JSON.parse\<close> can hand to \<open>loadImages\<close> (lines 155 to 161):
  no readable file, text that is not JSON, the value \<open>null\<close>, a value without a truthy
  \<open>images\<close> property, an \<open>images\<close> array, or a truthy \<open>images\<close> that is not an array.
\<close>

datatype parsed = JsonNull | NoImages | ImagesArray "ImageData list" | ImagesOther

datatype catalog_file = Unreadable | NotJson | Json parsed

text \<open>\<open>this.images = parsed.images || []\<close>; \<open>None\<close> stands for a value that is not an array.\<close>

fun loadImages :: "catalog_file \<Rightarrow> error + ImageData list option" where
  "loadImages Unreadable = Inl ReadFailed"
| "loadImages NotJson = Inl SyntaxError"
| "loadImages (Json JsonNull) = Inl ReadOfUndefined"
| "loadImages (Json NoImages) = Inr (Some [])"
| "loadImages (Json (ImagesArray xs)) = Inr (Some xs)"
| "loadImages (Json ImagesOther) = Inr None"

text \<open>
  \<open>main\<close>, lines 394 to 408: the exit status and the catalog written, if any.
  Writing the output file is taken to succeed.
\<close>

definition main_listings :: "rng \<Rightarrow> string \<Rightarrow> catalog_file \<Rightarrow> nat \<times> ListingCatalog option" where
  "main_listings g now file =
     (case loadImages file of
        Inl e \<Rightarrow> (1, None)
      | Inr None \<Rightarrow> (1, None)
      | Inr (Some imgs) \<Rightarrow>
          (case generateAllListings g now imgs of
             Inl e \<Rightarrow> (1, None)
           | Inr out \<Rightarrow> (0, Some out)))"

section \<open>Image fetcher: data\<close>

datatype source = Unsplash | Pexels

record ImageMetadata =
  im_id :: string
  im_url :: string
  im_thumbnailUrl :: string
  im_category :: string
  im_tags :: "string list"
  im_width :: nat
  im_height :: nat
  im_color :: string
  im_source :: source
  im_photographer :: string
  im_photographerUrl :: string
  im_license :: string

record ProgressState =
  completed :: nat
  lastCategory :: string
  progress_images :: "ImageMetadata list"

record CategoryConfig =
  cfg_category :: string
  queries :: "string list"
  target :: nat

definition FURNITURE_CATEGORIES :: "CategoryConfig list" where
  "FURNITURE_CATEGORIES =
     [\<lparr>cfg_category = ''sofa'',
       queries = [''sofa'', ''couch'', ''sectional'', ''loveseat''], target = 150\<rparr>,
      \<lparr>cfg_category = ''dining-table'',
       queries = [''dining table'', ''kitchen table'', ''dining set''], target = 100\<rparr>,
      \<lparr>cfg_category = ''bed'',
       queries = [''bed'', ''bed frame'', ''bedroom furniture''], target = 100\<rparr>,
      \<lparr>cfg_category = ''wardrobe'',
       queries = [''wardrobe'', ''closet'', ''armoire''], target = 80\<rparr>,
      \<lparr>cfg_category = ''desk'',
       queries = [''desk'', ''office desk'', ''study table''], target = 80\<rparr>,
      \<lparr>cfg_category = ''outdoor'',
       queries = [''outdoor furniture'', ''patio set'', ''garden furniture''], target = 70\<rparr>,
      \<lparr>cfg_category = ''storage'',
       queries = [''bookshelf'', ''cabinet'', ''storage unit''], target = 70\<rparr>,
      \<lparr>cfg_category = ''chair'',
       queries = [''chair'', ''accent chair'', ''armchair''], target = 100\<rparr>,
      \<lparr>cfg_category = ''coffee-table'',
       queries = [''coffee table'', ''side table'', ''end table''], target = 80\<rparr>,
      \<lparr>cfg_category = ''entertainment'',
       queries = [''tv stand'', ''media console'', ''entertainment center''], target = 70\<rparr>]"

definition PROGRESS_FILE :: string where
  "PROGRESS_FILE = ''seed/images/progress.json''"

definition OUTPUT_FILE :: string where
  "OUTPUT_FILE = ''seed/images/unsplash_urls.json''"

definition PEXELS_OUTPUT :: string where
  "PEXELS_OUTPUT = ''seed/images/pexels_urls.json''"

definition RATE_LIMIT_DELAY :: nat where
  "RATE_LIMIT_DELAY = 1100"

definition MAX_RETRIES :: nat where
  "MAX_RETRIES = 3"

record ImageMeta =
  m_totalImages :: nat
  m_unsplashCount :: nat
  m_pexelsCount :: nat
  m_categories :: "(string \<times> nat) list"
  m_fetchedAt :: string
  m_license :: string

record ImageCatalog =
  c_meta :: ImageMeta
  c_images :: "ImageMetadata list"

text \<open>
  The disk: a map from paths to the JSON value last written there. Only the three paths
  named by the constants above are touched.
\<close>

datatype json_file = ProgressJson ProgressState | CatalogJson ImageCatalog

type_synonym disk = "string \<rightharpoonup> json_file"

section \<open>Image fetcher: the providers\<close>

text \<open>
  The two search endpoints are outside the program. A request is answered by a page of
  photos, by status 429, or by any other failure (network error, another status, a body
  of the wrong shape). What the provider is taken to send is a function of the query, the
  page and the number of requests already made by the current call.
\<close>

record unsplash_photo =
  u_id :: string
  u_regular :: string
  u_thumb :: string
  u_tags :: "string list option"
  u_width :: nat
  u_height :: nat
  u_color :: string
  u_user_name :: string
  u_user_html :: string

record pexels_photo =
  p_id :: nat
  p_large :: string
  p_small :: string
  p_width :: nat
  p_height :: nat
  p_avg_color :: string
  p_photographer :: string
  p_photographer_url :: string

datatype 'a response = Ok "'a list" | TooManyRequests | Failed

record env =
  unsplashKey :: string
  pexelsKey :: string
  unsplash_api :: "string \<Rightarrow> nat \<Rightarrow> nat \<Rightarrow> unsplash_photo response"
  pexels_api :: "string \<Rightarrow> nat \<Rightarrow> nat \<Rightarrow> pexels_photo response"

text \<open>What a run does to the outside, in order: requests sent and pauses made (in ms).\<close>

datatype event = Request source string nat | Sleep nat

text \<open>
  The \<open>while (retries < MAX_RETRIES)\<close> loop of \<open>fetchUnsplash\<close> (lines 99 to 141) and of
  \<open>fetchPexels\<close> (lines 152 to 191); the two differ in the endpoint and in the mapping of
  the photos only. \<open>api\<close> answers the request number \<open>retries\<close> of this call, \<open>req\<close> is the
  event of sending it. The \<open>catch\<close> block increments \<open>retries\<close> first; on 429 it sleeps
  60000 ms and falls through to the sleep of \<open>2000 * retries\<close> after the \<open>if\<close>; on another
  failure it returns the empty list once \<open>retries\<close> has reached the ceiling and sleeps
  \<open>2000 * retries\<close> otherwise.
\<close>

function retry_loop :: "(nat \<Rightarrow> 'a response) \<Rightarrow> event \<Rightarrow> nat \<Rightarrow> event list \<Rightarrow> 'a list \<times> event list" where
  "retry_loop api req retries ev =
     (if retries < MAX_RETRIES then
        (case api retries of
           Ok photos \<Rightarrow> (photos, ev @ [req])
         | TooManyRequests \<Rightarrow>
             retry_loop api req (retries + 1)
               (ev @ [req, Sleep 60000, Sleep (2000 * (retries + 1))])
         | Failed \<Rightarrow>
             if retries + 1 \<ge> MAX_RETRIES then ([], ev @ [req])
             else retry_loop api req (retries + 1) (ev @ [req, Sleep (2000 * (retries + 1))]))
      else ([], ev))"
  by pat_completeness auto
termination
  by (relation "measure (\<lambda>(api, req, retries, ev). MAX_RETRIES - retries)") auto

declare retry_loop.simps [simp del]

text \<open>\<open>String(n)\<close> of a non-negative integer.\<close>

fun string_of_nat :: "nat \<Rightarrow> string" where
  "string_of_nat n =
     (if n < 10 then [char_of (48 + n)]
      else string_of_nat (n div 10) @ [char_of (48 + n mod 10)])"

declare string_of_nat.simps [simp del]

definition unsplash_image :: "string \<Rightarrow> unsplash_photo \<Rightarrow> ImageMetadata" where
  "unsplash_image query img =
     \<lparr>im_id = u_id img,
      im_url = u_regular img,
      im_thumbnailUrl = u_thumb img,
      im_category = query,
      im_tags = (case u_tags img of Some ts \<Rightarrow> ts | None \<Rightarrow> []),
      im_width = u_width img,
      im_height = u_height img,
      im_color = u_color img,
      im_source = Unsplash,
      im_photographer = u_user_name img,
      im_photographerUrl = u_user_html img,
      im_license = ''Unsplash License (free to use, attribution appreciated)''\<rparr>"

definition pexels_image :: "string \<Rightarrow> pexels_photo \<Rightarrow> ImageMetadata" where
  "pexels_image query img =
     \<lparr>im_id = string_of_nat (p_id img),
      im_url = p_large img,
      im_thumbnailUrl = p_small img,
      im_category = query,
      im_tags = [query, ''furniture''],
      im_width = p_width img,
      im_height = p_height img,
      im_color = p_avg_color img,
      im_source = Pexels,
      im_photographer = p_photographer img,
      im_photographerUrl = p_photographer_url img,
      im_license = ''Pexels License (free to use, attribution appreciated)''\<rparr>"

definition fetchUnsplash :: "env \<Rightarrow> string \<Rightarrow> nat \<Rightarrow> ImageMetadata list \<times> event list" where
  "fetchUnsplash e query page =
     (if unsplashKey e = [] then ([], [])
      else let (photos, ev) =
                 retry_loop (unsplash_api e query page) (Request Unsplash query page) 0 []
           in (map (unsplash_image query) photos, ev))"

definition fetchPexels :: "env \<Rightarrow> string \<Rightarrow> nat \<Rightarrow> ImageMetadata list \<times> event list" where
  "fetchPexels e query page =
     (if pexelsKey e = [] then ([], [])
      else let (photos, ev) =
                 retry_loop (pexels_api e query page) (Request Pexels query page) 0 []
           in (map (pexels_image query) photos, ev))"

section \<open>Image fetcher: orchestration\<close>

text \<open>The state of a run: the progress object of the fetcher, the disk, the events so far.\<close>

record run =
  progress :: ProgressState
  files :: disk
  events :: "event list"

definition saveProgress :: "run \<Rightarrow> run" where
  "saveProgress s = s\<lparr>files := (files s)(PROGRESS_FILE \<mapsto> ProgressJson (progress s))\<rparr>"

definition sleep :: "nat \<Rightarrow> run \<Rightarrow> run" where
  "sleep ms s = s\<lparr>events := events s @ [Sleep ms]\<rparr>"

text \<open>
  \<open>loadProgress\<close>, lines 77 to 86: the checkpoint if the file can be read and parsed, the
  fresh state of the constructor otherwise.
\<close>

definition loadProgress :: "disk \<Rightarrow> run" where
  "loadProgress d =
     \<lparr>progress = (case d PROGRESS_FILE of
                    Some (ProgressJson p) \<Rightarrow> p
                  | _ \<Rightarrow> \<lparr>completed = 0, lastCategory = [], progress_images = []\<rparr>),
      files = d,
      events = []\<rparr>"

text \<open>\<open>xs.findIndex(P)\<close>: the first index whose element satisfies \<open>P\<close>, or \<open>-1\<close>.\<close>

fun findIndex :: "('a \<Rightarrow> bool) \<Rightarrow> 'a list \<Rightarrow> int" where
  "findIndex P [] = -1"
| "findIndex P (x # xs) =
     (if P x then 0 else let i = findIndex P xs in if i < 0 then -1 else i + 1)"

text \<open>The test of lines 206 to 208, under the comment \<open>Skip if already processed\<close>.\<close>

definition skip_category :: "ProgressState \<Rightarrow> string \<Rightarrow> bool" where
  "skip_category p cat =
     (lastCategory p \<noteq> []
      \<and> findIndex (\<lambda>c. cfg_category c = lastCategory p) FURNITURE_CATEGORIES
          > findIndex (\<lambda>c. cfg_category c = cat) FURNITURE_CATEGORIES)"

text \<open>
  Lines 231 to 243 and 252 to 264: a non-empty page is relabelled with the category,
  appended, counted three times, saved, and followed by the rate-limit pause. The loop
  state is the run, \<open>categoryCount\<close> and \<open>fetchedForQuery\<close>.
\<close>

type_synonym counters = "run \<times> nat \<times> nat"

definition absorb :: "string \<Rightarrow> ImageMetadata list \<Rightarrow> counters \<Rightarrow> counters" where
  "absorb cat page_images st =
     (case st of (s, categoryCount, fetchedForQuery) \<Rightarrow>
        if length page_images > 0 then
          let relabelled = map (\<lambda>img. img\<lparr>im_category := cat\<rparr>) page_images;
              p = progress s;
              s' = s\<lparr>progress := p\<lparr>progress_images := progress_images p @ relabelled,
                                   completed := completed p + length relabelled\<rparr>\<rparr>
          in (sleep RATE_LIMIT_DELAY (saveProgress s'),
              categoryCount + length relabelled,
              fetchedForQuery + length relabelled)
        else st)"

text \<open>Lines 227 to 245, \<open>Try Unsplash first\<close>.\<close>

definition unsplash_step :: "env \<Rightarrow> string \<Rightarrow> string \<Rightarrow> nat \<Rightarrow> counters \<Rightarrow> counters" where
  "unsplash_step e cat query page st =
     (case st of (s, categoryCount, fetchedForQuery) \<Rightarrow>
        if unsplashKey e \<noteq> [] then
          let (unsplashImages, ev) = fetchUnsplash e query page
          in absorb cat unsplashImages (s\<lparr>events := events s @ ev\<rparr>, categoryCount, fetchedForQuery)
        else st)"

text \<open>Lines 248 to 266, \<open>Fallback to Pexels if needed\<close>.\<close>

definition pexels_step :: "env \<Rightarrow> nat \<Rightarrow> string \<Rightarrow> nat \<Rightarrow> string \<Rightarrow> nat \<Rightarrow> counters \<Rightarrow> counters" where
  "pexels_step e targetTotal cat perQuery query page st =
     (case st of (s, categoryCount, fetchedForQuery) \<Rightarrow>
        if fetchedForQuery < perQuery \<and> pexelsKey e \<noteq> []
           \<and> completed (progress s) < targetTotal then
          let (pexelsImages, ev) = fetchPexels e query page
          in absorb cat pexelsImages (s\<lparr>events := events s @ ev\<rparr>, categoryCount, fetchedForQuery)
        else st)"

text \<open>One round of the page loop up to, and without, \<open>page++\<close>.\<close>

definition page_body :: "env \<Rightarrow> nat \<Rightarrow> string \<Rightarrow> nat \<Rightarrow> string \<Rightarrow> nat \<Rightarrow> counters \<Rightarrow> counters" where
  "page_body e targetTotal cat perQuery query page st =
     pexels_step e targetTotal cat perQuery query page (unsplash_step e cat query page st)"

text \<open>The \<open>while\<close> loop of lines 225 to 272, with its \<open>break\<close> after page 10.\<close>

function page_loop :: "env \<Rightarrow> nat \<Rightarrow> string \<Rightarrow> nat \<Rightarrow> string \<Rightarrow> nat \<Rightarrow> counters \<Rightarrow> counters" where
  "page_loop e targetTotal cat perQuery query page st =
     (case st of (s, categoryCount, fetchedForQuery) \<Rightarrow>
        if fetchedForQuery < perQuery \<and> completed (progress s) < targetTotal then
          let st' = page_body e targetTotal cat perQuery query page st
          in if page + 1 > 10 then st'
             else page_loop e targetTotal cat perQuery query (page + 1) st'
        else st)"
  by pat_completeness auto
termination
  by (relation "measure (\<lambda>(e, targetTotal, cat, perQuery, query, page, st). 11 - page)") auto

declare page_loop.simps [simp del]

text \<open>The \<open>for (const query of queries)\<close> loop of lines 217 to 273.\<close>

fun queries_loop :: "env \<Rightarrow> nat \<Rightarrow> string \<Rightarrow> nat \<Rightarrow> nat \<Rightarrow> string list \<Rightarrow> run \<times> nat \<Rightarrow> run \<times> nat" where
  "queries_loop e targetTotal cat tgt perQuery [] st = st"
| "queries_loop e targetTotal cat tgt perQuery (query # rest) (s, categoryCount) =
     (if categoryCount \<ge> tgt then (s, categoryCount)
      else case page_loop e targetTotal cat perQuery query 1 (s, categoryCount, 0) of
             (s', categoryCount', fetchedForQuery) \<Rightarrow>
               queries_loop e targetTotal cat tgt perQuery rest (s', categoryCount'))"

text \<open>
  The body of the category loop after the skip test, lines 212 to 276.
  \<open>Math.ceil(target / queries.length)\<close> is computed on naturals; for no query at all
  (where the source has \<open>Infinity\<close> or \<open>NaN\<close>) the quota is never read.
\<close>

definition fetch_category :: "env \<Rightarrow> nat \<Rightarrow> CategoryConfig \<Rightarrow> run \<Rightarrow> run" where
  "fetch_category e targetTotal cfg s =
     (let perQuery = (target cfg + length (queries cfg) - 1) div length (queries cfg);
          (s', categoryCount) =
             queries_loop e targetTotal (cfg_category cfg) (target cfg) perQuery
               (queries cfg) (s, 0)
      in saveProgress (s'\<lparr>progress := (progress s')\<lparr>lastCategory := cfg_category cfg\<rparr>\<rparr>))"

text \<open>The \<open>for (const catConfig of FURNITURE_CATEGORIES)\<close> loop, lines 202 to 284.\<close>

fun categories_loop :: "env \<Rightarrow> nat \<Rightarrow> CategoryConfig list \<Rightarrow> run \<Rightarrow> run" where
  "categories_loop e targetTotal [] s = s"
| "categories_loop e targetTotal (cfg # rest) s =
     (if skip_category (progress s) (cfg_category cfg) then categories_loop e targetTotal rest s
      else let s' = fetch_category e targetTotal cfg s
           in if completed (progress s') \<ge> targetTotal then s'
              else categories_loop e targetTotal rest s')"

section \<open>Image fetcher: finalization\<close>

text \<open>
  \<open>new Map(pairs)\<close>: a later pair with a key already present replaces the value and keeps
  the position of the key; \<open>values()\<close> lists the values in the order of the keys.
\<close>

fun map_set :: "('k \<times> 'v) list \<Rightarrow> 'k \<Rightarrow> 'v \<Rightarrow> ('k \<times> 'v) list" where
  "map_set [] k v = [(k, v)]"
| "map_set ((k', v') # rest) k v =
     (if k' = k then (k, v) # rest else (k', v') # map_set rest k v)"

definition js_map :: "('k \<times> 'v) list \<Rightarrow> ('k \<times> 'v) list" where
  "js_map pairs = fold (\<lambda>(k, v) m. map_set m k v) pairs []"

text \<open>Lines 294 to 296, under the comment \<open>Deduplicate by ID\<close>.\<close>

definition uniqueImages :: "ImageMetadata list \<Rightarrow> ImageMetadata list" where
  "uniqueImages imgs = map snd (js_map (map (\<lambda>img. (im_id img, img)) imgs))"

text \<open>
  Lines 305 to 308, the count of images per category. The categories are those of
  \<open>FURNITURE_CATEGORIES\<close>, ordinary keys listed in creation order.
\<close>

fun bump :: "(string \<times> nat) list \<Rightarrow> string \<Rightarrow> (string \<times> nat) list" where
  "bump [] k = [(k, 1)]"
| "bump ((k', n) # rest) k = (if k' = k then (k', n + 1) # rest else (k', n) # bump rest k)"

definition byCategory :: "ImageMetadata list \<Rightarrow> (string \<times> nat) list" where
  "byCategory imgs = fold (\<lambda>img acc. bump acc (im_category img)) imgs []"

text \<open>
  \<open>finalize\<close>, lines 290 to 357, with the clock as a parameter: the main output is written
  to \<open>OUTPUT_FILE\<close>, the Unsplash images to \<open>OUTPUT_FILE\<close>, the Pexels images to
  \<open>PEXELS_OUTPUT\<close>, and the checkpoint is removed.
\<close>

definition finalize :: "string \<Rightarrow> run \<Rightarrow> run" where
  "finalize now s =
     (let uniq = uniqueImages (progress_images (progress s));
          unsplashImages = filter (\<lambda>img. im_source img = Unsplash) uniq;
          pexelsImages = filter (\<lambda>img. im_source img = Pexels) uniq;
          output = \<lparr>c_meta = \<lparr>m_totalImages = length uniq,
                              m_unsplashCount = length unsplashImages,
                              m_pexelsCount = length pexelsImages,
                              m_categories = byCategory uniq,
                              m_fetchedAt = now,
                              m_license = ''All images are free to use. Attribution appreciated where specified.''\<rparr>,
                    c_images = uniq\<rparr>;
          d1 = (files s)(OUTPUT_FILE \<mapsto> CatalogJson output);
          d2 = (if length unsplashImages > 0
                then d1(OUTPUT_FILE \<mapsto> CatalogJson (output\<lparr>c_images := unsplashImages\<rparr>))
                else d1);
          d3 = (if length pexelsImages > 0
                then d2(PEXELS_OUTPUT \<mapsto> CatalogJson (output\<lparr>c_images := pexelsImages\<rparr>))
                else d2)
      in s\<lparr>files := d3(PROGRESS_FILE := None)\<rparr>)"

text \<open>\<open>fetchAll\<close>, lines 197 to 287.\<close>

definition fetchAll :: "env \<Rightarrow> string \<Rightarrow> nat \<Rightarrow> disk \<Rightarrow> run" where
  "fetchAll e now targetTotal d =
     finalize now (categories_loop e targetTotal FURNITURE_CATEGORIES (loadProgress d))"

section \<open>Notions used in the statements\<close>

text \<open>\<open>imagesByCategory[c] || []\<close>: the images filed under the key \<open>c\<close>.\<close>

definition group_of :: "groups \<Rightarrow> string \<Rightarrow> ImageData list" where
  "group_of gs c = concat (map snd (filter (\<lambda>kv. fst kv = c) gs))"

text \<open>Every image of a group carries the category it is filed under.\<close>

definition well_keyed :: "groups \<Rightarrow> bool" where
  "well_keyed gs = list_all (\<lambda>kv. list_all (\<lambda>i. img_category i = fst kv) (snd kv)) gs"

text \<open>
  A pair of a window and a listing is \<open>generated\<close> when \<open>generateListing\<close> returns the
  listing for the window, in some state of the random source.
\<close>

definition generated :: "ImageData list \<times> Listing \<Rightarrow> bool" where
  "generated p \<longleftrightarrow> (\<exists>g1 g2. generateListing g1 (fst p) = Inr (snd p, g2))"

text \<open>The images of the catalog stored at a path, as the synthesizer would load them.\<close>

definition images_at :: "disk \<Rightarrow> string \<Rightarrow> ImageMetadata list option" where
  "images_at d path = (case d path of Some (CatalogJson c) \<Rightarrow> Some (c_images c) | _ \<Rightarrow> None)"

text \<open>The pauses of a list of events, in order.\<close>

fun pauses :: "event list \<Rightarrow> nat list" where
  "pauses [] = []"
| "pauses (Sleep ms # ev) = ms # pauses ev"
| "pauses (Request src query page # ev) = pauses ev"

text \<open>The photos of an answer; none for a failure.\<close>

fun answer :: "'a response \<Rightarrow> 'a list" where
  "answer (Ok photos) = photos"
| "answer TooManyRequests = []"
| "answer Failed = []"

fun is_failure :: "'a response \<Rightarrow> bool" where
  "is_failure (Ok photos) = False"
| "is_failure TooManyRequests = True"
| "is_failure Failed = True"

text \<open>The number of failed requests before the first answered one, among the first three.\<close>

definition failed_attempts :: "(nat \<Rightarrow> 'a response) \<Rightarrow> nat" where
  "failed_attempts api = length (takeWhile (\<lambda>n. is_failure (api n)) [0..<MAX_RETRIES])"

text \<open>The pauses after the failure of the request number \<open>k\<close> (counted from 0).\<close>

definition backoff :: "(nat \<Rightarrow> 'a response) \<Rightarrow> nat \<Rightarrow> nat list" where
  "backoff api k =
     (case api k of
        Ok photos \<Rightarrow> []
      | TooManyRequests \<Rightarrow> [60000, 2000 * (k + 1)]
      | Failed \<Rightarrow> if k + 1 < MAX_RETRIES then [2000 * (k + 1)] else [])"

section \<open>Example inputs\<close>

definition example_image_a :: ImageData where
  "example_image_a =
     \<lparr>img_id = ''a1'', img_url = ''https://img/a1'', img_thumbnailUrl = ''https://img/a1t'',
      img_category = ''sofa'', img_tags = [''cozy''], img_color = ''#aaaaaa'',
      img_source = ''unsplash'', img_photographer = ''Ada'',
      img_photographerUrl = ''https://u/ada''\<rparr>"

definition example_image_b :: ImageData where
  "example_image_b =
     \<lparr>img_id = ''b2'', img_url = ''https://img/b2'', img_thumbnailUrl = ''https://img/b2t'',
      img_category = ''sofa'', img_tags = [''grey''], img_color = ''#bbbbbb'',
      img_source = ''pexels'', img_photographer = ''Bo'',
      img_photographerUrl = ''https://p/bo''\<rparr>"

definition example_unsplash_photo :: unsplash_photo where
  "example_unsplash_photo =
     \<lparr>u_id = ''42'', u_regular = ''https://u/42'', u_thumb = ''https://u/42t'',
      u_tags = None, u_width = 800, u_height = 600, u_color = ''#aaaaaa'',
      u_user_name = ''Ada'', u_user_html = ''https://u/ada''\<rparr>"

definition example_pexels_photo :: pexels_photo where
  "example_pexels_photo =
     \<lparr>p_id = 7, p_large = ''https://p/7'', p_small = ''https://p/7s'',
      p_width = 640, p_height = 480, p_avg_color = ''#bbbbbb'',
      p_photographer = ''Bo'', p_photographer_url = ''https://p/bo''\<rparr>"

text \<open>
  Both providers configured; each has one photo for page 1 of the query \<open>sofa\<close> and
  nothing else.
\<close>

definition example_env :: env where
  "example_env =
     \<lparr>unsplashKey = ''ukey'', pexelsKey = ''pkey'',
      unsplash_api = (\<lambda>query page n.
         if query = ''sofa'' \<and> page = 1 then Ok [example_unsplash_photo] else Ok []),
      pexels_api = (\<lambda>query page n.
         if query = ''sofa'' \<and> page = 1 then Ok [example_pexels_photo] else Ok [])\<rparr>"

definition example_listing_a :: Listing where
  "example_listing_a =
     \<lparr>price_ngn = 45000, city = ''Lagos'', condition = New, materials = [''leather''],
      images = [''https://img/a1''], category = ''sofa'',
      tags = [''cozy'', ''sofa'', ''leather'', ''new''], stock = 1, featured = True\<rparr>"

definition example_listing_ab :: Listing where
  "example_listing_ab =
     \<lparr>price_ngn = 45000, city = ''Lagos'', condition = New, materials = [''leather''],
      images = [''https://img/a1'', ''https://img/b2''], category = ''sofa'',
      tags = [''cozy'', ''sofa'', ''leather'', ''new''], stock = 1, featured = True\<rparr>"

definition example_listing_b :: Listing where
  "example_listing_b =
     \<lparr>price_ngn = 45000, city = ''Lagos'', condition = New, materials = [''leather''],
      images = [''https://img/b2''], category = ''sofa'',
      tags = [''grey'', ''sofa'', ''leather'', ''new''], stock = 1, featured = True\<rparr>"

text \<open>Both providers answer 429 three times, then with a photo.\<close>

definition rate_limited_env :: env where
  "rate_limited_env =
     \<lparr>unsplashKey = ''ukey'', pexelsKey = ''pkey'',
      unsplash_api = (\<lambda>query page n. if n < 3 then TooManyRequests else Ok [example_unsplash_photo]),
      pexels_api = (\<lambda>query page n. if n < 3 then TooManyRequests else Ok [example_pexels_photo])\<rparr>"

text \<open>A checkpoint left after the category \<open>sofa\<close> was completed with one image.\<close>

definition resume_disk :: disk where
  "resume_disk =
     [PROGRESS_FILE \<mapsto>
        ProgressJson \<lparr>completed = 1, lastCategory = ''sofa'',
                      progress_images = [unsplash_image ''sofa'' example_unsplash_photo]\<rparr>]"

definition example_unsplash_image :: ImageMetadata where
  "example_unsplash_image = unsplash_image ''sofa'' example_unsplash_photo"

definition example_pexels_image :: ImageMetadata where
  "example_pexels_image = pexels_image ''sofa'' example_pexels_photo"

text \<open>A Pexels photo whose numeric id prints as the id of the Unsplash photo.\<close>

definition colliding_pexels_image :: ImageMetadata where
  "colliding_pexels_image = pexels_image ''sofa'' (example_pexels_photo\<lparr>p_id := 42\<rparr>)"

section \<open>Listing synthesizer: properties\<close>

lemma number_int_range:
  "number_int g lo hi = Inr (n, g') \<Longrightarrow> lo \<le> n \<and> n \<le> hi"
  by (auto simp: number_int_def split: if_splits intro: pos_mod_sign)
    (smt (verit) pos_mod_bound)

lemma price_range_table:
  "lookup_or PRICE_RANGES c (20000, 150000) = (lo, hi) \<Longrightarrow> 15000 \<le> lo \<and> lo \<le> hi"
  by (auto simp: lookup_or_def PRICE_RANGES_def split: if_splits)

lemma generateListing_Inr:
  assumes "generateListing g w = Inr (l, g')"
  shows "w \<noteq> []"
    and "category l = img_category (hd w)"
    and "images l = map img_url w"
    and "tags l = js_set (img_tags (hd w) @ [category l] @ materials l @ [condition_str (condition l)])"
  using assms
  by (auto simp: generateListing_def Let_def split: list.splits sum.splits prod.splits)

lemma generateListing_price:
  assumes "generateListing g w = Inr (l, g')"
  shows "\<exists>b lo hi. lookup_or PRICE_RANGES (category l) (20000, 150000) = (lo, hi)
           \<and> lo \<le> b \<and> b \<le> hi \<and> price_ngn l = price_of b (condition l)"
  using assms
  by (auto simp: generateListing_def Let_def split: list.splits sum.splits prod.splits)
    (use number_int_range in blast)

lemma generateListing_total:
  assumes "w \<noteq> []"
  shows "\<exists>l g'. generateListing g w = Inr (l, g')"
proof -
  obtain first rest where w: "w = first # rest" using assms by (cases w) auto
  obtain lo hi where r: "lookup_or PRICE_RANGES (img_category first) (20000, 150000) = (lo, hi)"
    by (cases "lookup_or PRICE_RANGES (img_category first) (20000, 150000)") auto
  then have "lo \<le> hi" using price_range_table by blast
  then show ?thesis using w r
    by (auto simp: generateListing_def Let_def number_int_def arrayElement_def NIGERIAN_CITIES_def
        split: prod.splits)
qed

lemma slice_loop_Inr:
  "slice_loop g xs i acc = Inr (cs, g') \<Longrightarrow>
     \<exists>new. cs = acc @ new \<and> concat (map fst new) = drop i xs
        \<and> (\<forall>p\<in>set new. length (fst p) \<le> 5 \<and> generated p)"
proof (induction g xs i acc arbitrary: cs g' rule: slice_loop.induct)
  case (1 g xs i acc)
  show ?case
  proof (cases "i < length xs")
    case False
    with "1.prems" show ?thesis by (simp add: slice_loop.simps [of g xs i acc])
  next
    case True
    from "1.prems" True obtain n g1 where
      draw: "number_int g 1 (min 5 (int (length xs) - int i)) = Inr (n, g1)"
      by (auto simp: slice_loop.simps [of g xs i acc] split: sum.splits)
    define w where "w = take (nat n) (drop i xs)"
    from "1.prems" True draw obtain l g2 where
      gen: "generateListing g1 w = Inr (l, g2)"
      by (auto simp: slice_loop.simps [of g xs i acc] w_def Let_def split: sum.splits)
    from "1.prems" True draw gen have
      rec: "slice_loop g2 xs (i + nat n) (acc @ [(w, l)]) = Inr (cs, g')"
      by (simp add: slice_loop.simps [of g xs i acc] w_def Let_def)
    from "1.IH" [OF True draw refl w_def gen refl rec] obtain new where
      new: "cs = (acc @ [(w, l)]) @ new" "concat (map fst new) = drop (i + nat n) xs"
        "\<forall>p\<in>set new. length (fst p) \<le> 5 \<and> generated p"
      by blast
    from number_int_range [OF draw] have n: "1 \<le> n" "n \<le> 5" by auto
    have "w @ drop (i + nat n) xs = drop i xs"
      by (simp add: w_def add.commute [of i] flip: drop_drop)
    moreover have "length w \<le> 5" using n by (simp add: w_def)
    moreover have "generated (w, l)" using gen by (auto simp: generated_def)
    ultimately show ?thesis
      using new by (intro exI [of _ "(w, l) # new"]) auto
  qed
qed

lemma slice_loop_no_error: "slice_loop g xs i acc \<noteq> Inl e"
proof (induction g xs i acc rule: slice_loop.induct)
  case (1 g xs i acc)
  show ?case
  proof (cases "i < length xs")
    case False
    then show ?thesis by (simp add: slice_loop.simps [of g xs i acc])
  next
    case True
    then have "\<not> min 5 (int (length xs) - int i) < 1" by simp
    then obtain n g1 where
      draw: "number_int g 1 (min 5 (int (length xs) - int i)) = Inr (n, g1)"
      unfolding number_int_def by simp
    define w where "w = take (nat n) (drop i xs)"
    from number_int_range [OF draw] True have "w \<noteq> []" by (auto simp: w_def)
    then obtain l g2 where gen: "generateListing g1 w = Inr (l, g2)"
      using generateListing_total by blast
    from "1.IH" [OF True draw refl w_def gen refl] True draw gen show ?thesis
      by (simp add: slice_loop.simps [of g xs i acc] w_def Let_def)
  qed
qed


lemma group_calls:
  assumes run: "slice_loop g xs 0 [] = Inr (cs, g')"
    and key: "\<forall>i\<in>set xs. img_category i = k"
  shows "concat (map fst cs) = xs"
    and "\<forall>p\<in>set cs. length (fst p) \<le> 5 \<and> generated p \<and> category (snd p) = k
           \<and> (\<forall>i\<in>set (fst p). img_category i = k)"
proof -
  from slice_loop_Inr [OF run] have
    cat: "concat (map fst cs) = xs" and
    each: "\<forall>p\<in>set cs. length (fst p) \<le> 5 \<and> generated p"
    by auto
  show "concat (map fst cs) = xs" by (rule cat)
  show "\<forall>p\<in>set cs. length (fst p) \<le> 5 \<and> generated p \<and> category (snd p) = k
           \<and> (\<forall>i\<in>set (fst p). img_category i = k)"
  proof
    fix p assume p: "p \<in> set cs"
    then have "set (fst p) \<subseteq> set (concat (map fst cs))" by auto
    with cat key have w: "\<forall>i\<in>set (fst p). img_category i = k" by auto
    from each p obtain g1 g2 where gen: "generateListing g1 (fst p) = Inr (snd p, g2)"
      by (auto simp: generated_def)
    from generateListing_Inr(1,2) [OF gen] w have "category (snd p) = k"
      by (cases "fst p") auto
    with each p w show "length (fst p) \<le> 5 \<and> generated p \<and> category (snd p) = k
           \<and> (\<forall>i\<in>set (fst p). img_category i = k)" by simp
  qed
qed

lemma entries_loop_Inr:
  assumes "entries_loop g es acc = Inr (cs, g')" and "well_keyed es"
  shows "\<exists>new. cs = acc @ new
        \<and> (\<forall>p\<in>set new. length (fst p) \<le> 5 \<and> generated p
              \<and> (\<forall>i\<in>set (fst p). img_category i = category (snd p)))
        \<and> (\<forall>c. concat (map fst (filter (\<lambda>p. category (snd p) = c) new)) = group_of es c)"
  using assms
proof (induction es arbitrary: g acc)
  case Nil
  then show ?case by (simp add: group_of_def)
next
  case (Cons kv es)
  obtain k xs where kv: "kv = (k, xs)" by (cases kv)
  from Cons.prems(1) kv obtain ck g1 where
    grp: "slice_loop g xs 0 [] = Inr (ck, g1)" and
    rest: "entries_loop g1 es (acc @ ck) = Inr (cs, g')"
    by (auto split: sum.splits)
  from Cons.prems(2) kv have key: "\<forall>i\<in>set xs. img_category i = k" and wk: "well_keyed es"
    by (auto simp: well_keyed_def list_all_iff)
  note gc = group_calls [OF grp key]
  from Cons.IH [OF rest wk] obtain new where
    new: "cs = (acc @ ck) @ new"
      "\<forall>p\<in>set new. length (fst p) \<le> 5 \<and> generated p
              \<and> (\<forall>i\<in>set (fst p). img_category i = category (snd p))"
      "\<forall>c. concat (map fst (filter (\<lambda>p. category (snd p) = c) new)) = group_of es c"
    by blast
  have filt: "filter (\<lambda>p. category (snd p) = c) ck = (if k = c then ck else [])" for c
    using gc(2) by (auto simp: filter_empty_conv intro: filter_True)
  have "concat (map fst (filter (\<lambda>p. category (snd p) = c) (ck @ new))) = group_of (kv # es) c" for c
    using new(3) gc(1) by (simp add: filt group_of_def kv)
  moreover have "\<forall>p\<in>set (ck @ new). length (fst p) \<le> 5 \<and> generated p
              \<and> (\<forall>i\<in>set (fst p). img_category i = category (snd p))"
    using new(2) gc(2) by auto
  ultimately show ?case using new(1) by (intro exI [of _ "ck @ new"]) simp
qed

lemma entries_loop_no_error: "entries_loop g es acc \<noteq> Inl e"
proof (induction es arbitrary: g acc)
  case Nil
  show ?case by simp
next
  case (Cons kv es)
  obtain k xs where kv: "kv = (k, xs)" by (cases kv)
  show ?case using Cons.IH slice_loop_no_error
    by (auto simp: kv split: sum.splits)
qed


lemma group_of_absent: "k \<notin> fst ` set gs \<Longrightarrow> group_of gs k = []"
  by (induction gs) (auto simp: group_of_def)

lemma push_group_keys: "fst ` set (push_group acc k img) = insert k (fst ` set acc)"
  by (induction acc k img rule: push_group.induct) auto

lemma push_group_distinct:
  "distinct (map fst acc) \<Longrightarrow> distinct (map fst (push_group acc k img))"
  by (induction acc k img rule: push_group.induct) (auto simp: push_group_keys)

lemma push_group_of:
  "distinct (map fst acc) \<Longrightarrow>
     group_of (push_group acc k img) c = group_of acc c @ (if c = k then [img] else [])"
proof (induction acc k img rule: push_group.induct)
  case (1 k img)
  show ?case by (simp add: group_of_def)
next
  case (2 k' xs rest k img)
  show ?case
  proof (cases "k' = k")
    case True
    from "2.prems" True have "filter (\<lambda>kv. fst kv = k) rest = []"
      by (auto simp: filter_empty_conv)
    with True show ?thesis by (simp add: group_of_def)
  next
    case False
    from "2.prems" have "distinct (map fst rest)" by simp
    from "2.IH" [OF False this] False show ?thesis by (auto simp: group_of_def)
  qed
qed

lemma push_group_well_keyed:
  "well_keyed acc \<Longrightarrow> well_keyed (push_group acc (img_category img) img)"
  by (induction acc "img_category img" img rule: push_group.induct)
    (auto simp: well_keyed_def)

lemma group_images_Inr:
  assumes "group_images imgs acc = Inr gs" and "distinct (map fst acc)" and "well_keyed acc"
  shows "distinct (map fst gs) \<and> well_keyed gs
     \<and> (\<forall>c. group_of gs c = group_of acc c @ filter (\<lambda>i. img_category i = c) imgs)"
  using assms
proof (induction imgs arbitrary: acc)
  case Nil
  then show ?case by simp
next
  case (Cons img imgs)
  from Cons.prems(1) have
    rec: "group_images imgs (push_group acc (img_category img) img) = Inr gs"
    by (simp split: if_splits)
  from Cons.IH [OF rec push_group_distinct [OF Cons.prems(2)]
      push_group_well_keyed [OF Cons.prems(3)]]
  show ?case by (auto simp: push_group_of [OF Cons.prems(2)])
qed

lemma group_images_Inl:
  "group_images imgs acc = Inl e \<longleftrightarrow>
     e = NotAFunction \<and> (\<exists>i\<in>set imgs. img_category i \<in> set object_prototype_keys)"
  by (induction imgs arbitrary: acc) auto

lemma filter_key_short:
  "distinct (map fst gs) \<Longrightarrow> length (filter (\<lambda>kv. fst kv = c) gs) \<le> Suc 0"
  by (induction gs) (auto simp: filter_empty_conv image_iff)

lemma sort_key_short: "length ys \<le> Suc 0 \<Longrightarrow> sort_key f ys = ys"
  by (cases ys) auto

lemma group_of_entries:
  assumes "distinct (map fst gs)"
  shows "group_of (entries gs) c = group_of gs c"
proof -
  let ?idx = "\<lambda>kv::string \<times> ImageData list. is_array_index (fst kv)"
  let ?f = "\<lambda>kv::string \<times> ImageData list. index_value (fst kv)"
  have "length (filter (\<lambda>kv. fst kv = c) (filter ?idx gs)) \<le> Suc 0"
    using filter_key_short [of "filter ?idx gs" c] assms by (simp add: distinct_map_filter)
  then have "filter (\<lambda>kv. fst kv = c) (sort_key ?f (filter ?idx gs))
      = filter (\<lambda>kv. fst kv = c) (filter ?idx gs)"
    by (simp add: filter_sort sort_key_short)
  then have "group_of (entries gs) c
      = concat (map snd (filter (\<lambda>kv. fst kv = c \<and> ?idx kv) gs))
        @ concat (map snd (filter (\<lambda>kv. fst kv = c \<and> \<not> ?idx kv) gs))"
    by (simp add: group_of_def entries_def conj_commute)
  also have "\<dots> = group_of gs c"
  proof (cases "is_array_index c")
    case True
    then have "filter (\<lambda>kv. fst kv = c \<and> ?idx kv) gs = filter (\<lambda>kv. fst kv = c) gs"
      "filter (\<lambda>kv. fst kv = c \<and> \<not> ?idx kv) gs = []"
      by (auto intro: filter_cong simp: filter_empty_conv)
    then show ?thesis by (simp add: group_of_def)
  next
    case False
    then have "filter (\<lambda>kv. fst kv = c \<and> \<not> ?idx kv) gs = filter (\<lambda>kv. fst kv = c) gs"
      "filter (\<lambda>kv. fst kv = c \<and> ?idx kv) gs = []"
      by (auto intro: filter_cong simp: filter_empty_conv)
    then show ?thesis by (simp add: group_of_def)
  qed
  finally show ?thesis .
qed

lemma well_keyed_entries: "well_keyed gs \<Longrightarrow> well_keyed (entries gs)"
  by (auto simp: well_keyed_def entries_def list_all_iff)

lemma synthesis_calls_Inr:
  assumes "synthesis_calls g imgs = Inr cs"
  shows "\<forall>p\<in>set cs. length (fst p) \<le> 5 \<and> generated p
              \<and> (\<forall>i\<in>set (fst p). img_category i = category (snd p))"
    and "concat (map fst (filter (\<lambda>p. category (snd p) = c) cs))
           = filter (\<lambda>i. img_category i = c) imgs"
proof -
  from assms obtain gs g' where
    gs: "group_images imgs [] = Inr gs" and
    loop: "entries_loop g (entries gs) [] = Inr (cs, g')"
    by (auto simp: synthesis_calls_def split: sum.splits)
  from group_images_Inr [OF gs] have
    d: "distinct (map fst gs)" and wk: "well_keyed gs" and
    grp: "\<And>c. group_of gs c = filter (\<lambda>i. img_category i = c) imgs"
    by (auto simp: well_keyed_def group_of_def)
  from entries_loop_Inr [OF loop well_keyed_entries [OF wk]]
  show "\<forall>p\<in>set cs. length (fst p) \<le> 5 \<and> generated p
              \<and> (\<forall>i\<in>set (fst p). img_category i = category (snd p))"
    and "concat (map fst (filter (\<lambda>p. category (snd p) = c) cs))
           = filter (\<lambda>i. img_category i = c) imgs"
    by (auto simp: group_of_entries [OF d] grp)
qed

lemma synthesis_calls_Inl:
  "synthesis_calls g imgs = Inl e \<longleftrightarrow>
     e = NotAFunction \<and> (\<exists>i\<in>set imgs. img_category i \<in> set object_prototype_keys)"
  using group_images_Inl [of imgs "[]" e] entries_loop_no_error
  by (auto simp: synthesis_calls_def split: sum.splits prod.splits)

lemma Math_round_div:
  "0 < d \<Longrightarrow> Math_round (of_int a / of_int d) = (2 * a + d) div (2 * d)"
proof -
  assume d: "0 < d"
  then have "(of_int a / of_int d + 1 / 2 :: rat) = of_int (2 * a + d) / of_int (2 * d)"
    by (simp add: field_simps)
  then show ?thesis
    unfolding Math_round_def by (simp only: floor_divide_of_int_eq)
qed

lemma price_of_int:
  "price_of b New = (2 * b + 1000) div 2000 * 1000"
  "price_of b Excellent = (2 * (85 * b) + 100000) div 200000 * 1000"
  "price_of b Good = (2 * (65 * b) + 100000) div 200000 * 1000"
  "price_of b Fair = (2 * (45 * b) + 100000) div 200000 * 1000"
proof -
  have r: "Math_round (of_int b * (of_int p / 100) / 1000) = (2 * (p * b) + 100000) div 200000"
    for p :: int
  proof -
    have "(of_int b * (of_int p / 100) / 1000 :: rat) = of_int (p * b) / of_int 100000"
      by simp
    then show ?thesis by (simp only: Math_round_div) simp
  qed
  show "price_of b New = (2 * b + 1000) div 2000 * 1000"
    using Math_round_div [of 1000 b] by (simp add: price_of_def)
  show "price_of b Excellent = (2 * (85 * b) + 100000) div 200000 * 1000"
    using r [of 85] by (simp add: price_of_def)
  show "price_of b Good = (2 * (65 * b) + 100000) div 200000 * 1000"
    using r [of 65] by (simp add: price_of_def)
  show "price_of b Fair = (2 * (45 * b) + 100000) div 200000 * 1000"
    using r [of 45] by (simp add: price_of_def)
qed

lemma Math_round_mono: "x \<le> y \<Longrightarrow> Math_round x \<le> Math_round y"
  by (simp add: Math_round_def floor_mono)

lemma multiplier_bounds: "45 / 100 \<le> conditionMultipliers c \<and> conditionMultipliers c \<le> 1"
  by (cases c) simp_all

lemma price_of_bounds:
  assumes "15000 \<le> lo" "lo \<le> b" "b \<le> hi"
  shows "0 < price_of b c"
    and "1000 dvd price_of b c"
    and "Math_round (of_int lo * (45 / 100) / 1000) * 1000 \<le> price_of b c"
    and "price_of b c \<le> Math_round (of_int hi * 1 / 1000) * 1000"
proof -
  have b0: "(0::rat) \<le> of_int b" using assms by simp
  have "(of_int lo :: rat) * (45 / 100) \<le> of_int b * (45 / 100)"
    using assms by simp
  also have "\<dots> \<le> of_int b * conditionMultipliers c"
    using multiplier_bounds [of c] b0 by (intro mult_left_mono) auto
  finally have lower: "(of_int lo :: rat) * (45 / 100) / 1000 \<le> of_int b * conditionMultipliers c / 1000"
    by (simp add: divide_right_mono)
  have "of_int b * conditionMultipliers c \<le> (of_int b :: rat) * 1"
    using multiplier_bounds [of c] b0 by (intro mult_left_mono) auto
  also have "\<dots> \<le> of_int hi * 1" using assms by simp
  finally have upper: "of_int b * conditionMultipliers c / 1000 \<le> (of_int hi :: rat) * 1 / 1000"
    by (simp add: divide_right_mono)
  show l: "Math_round (of_int lo * (45 / 100) / 1000) * 1000 \<le> price_of b c"
    unfolding price_of_def using Math_round_mono [OF lower] by simp
  show "price_of b c \<le> Math_round (of_int hi * 1 / 1000) * 1000"
    unfolding price_of_def using Math_round_mono [OF upper] by simp
  show "1000 dvd price_of b c" by (simp add: price_of_def)
  have "(15000 :: rat) * (45 / 100) / 1000 \<le> of_int lo * (45 / 100) / 1000"
    using assms by simp
  from Math_round_mono [OF this] have "7 \<le> Math_round (of_int lo * (45 / 100) / 1000)"
    using Math_round_div [of 100000 675000] by simp
  with l show "0 < price_of b c" by simp
qed

lemma set_js_set_aux: "set (fold (\<lambda>x s. set_add s x) xs acc) = set acc \<union> set xs"
  by (induction xs arbitrary: acc) (auto simp: set_add_def)

lemma distinct_js_set_aux:
  "distinct acc \<Longrightarrow> distinct (fold (\<lambda>x s. set_add s x) xs acc)"
  by (induction xs arbitrary: acc) (auto simp: set_add_def)

lemma set_js_set: "set (js_set xs) = set xs"
  by (simp add: js_set_def set_js_set_aux)

lemma distinct_js_set: "distinct (js_set xs)"
  by (simp add: js_set_def distinct_js_set_aux)

lemma generateAllListings_calls:
  "generateAllListings g now imgs = Inr out \<Longrightarrow>
     \<exists>cs. synthesis_calls g imgs = Inr cs \<and> listings out = map snd cs"
  by (auto simp: generateAllListings_def Let_def split: sum.splits)

lemma generateAllListings_Inl:
  "generateAllListings g now imgs = Inl e \<longleftrightarrow>
     e = NotAFunction \<and> (\<exists>i\<in>set imgs. img_category i \<in> set object_prototype_keys)"
  using group_images_Inl [of imgs "[]" e] synthesis_calls_Inl [of g imgs e]
  by (auto simp: generateAllListings_def Let_def split: sum.splits)

lemma generateAllListings_total:
  assumes "list_all (\<lambda>i. img_category i \<notin> set object_prototype_keys) imgs"
  shows "\<exists>out. generateAllListings g now imgs = Inr out"
proof (cases "generateAllListings g now imgs")
  case (Inl e)
  with assms show ?thesis by (auto simp: generateAllListings_Inl list_all_iff)
next
  case (Inr out)
  then show ?thesis by blast
qed

text \<open>The definitions unfolded to run the synthesizer on a concrete input.\<close>

lemmas gen_defs = synthesis_calls_def entries_def is_array_index_def object_prototype_keys_def
  slice_loop.simps generateListing_def number_int_def arrayElement_def weightedCondition_def
  lookup_or_def PRICE_RANGES_def MATERIALS_BY_CATEGORY_def NIGERIAN_CITIES_def
  price_of_int js_set_def set_add_def Let_def
  example_image_a_def example_image_b_def

section \<open>Listing synthesizer: the claims\<close>

text \<open>
  Claim C8. Every listing of the catalog whose category has an entry in \<open>PRICE_RANGES\<close>,
  say \<open>(lo, hi)\<close>, has a positive price that is a multiple of 1000 and lies between
  \<open>lo * 0.45\<close> and \<open>hi * 1.0\<close>, both rounded to the nearest 1000; the price is the
  rounded product of a base price of \<open>[lo, hi]\<close> and the multiplier of the listing's
  condition (new 1, excellent 0.85, good 0.65, fair 0.45).
\<close>

theorem price_bounds:
  assumes "generateAllListings g now imgs = Inr out"
    and "l \<in> set (listings out)"
    and "map_of PRICE_RANGES (category l) = Some (lo, hi)"
  shows "0 < price_ngn l \<and> 1000 dvd price_ngn l
     \<and> Math_round (of_int lo * (45 / 100) / 1000) * 1000 \<le> price_ngn l
     \<and> price_ngn l \<le> Math_round (of_int hi * 1 / 1000) * 1000
     \<and> (\<exists>b. lo \<le> b \<and> b \<le> hi
           \<and> price_ngn l = Math_round (of_int b * conditionMultipliers (condition l) / 1000) * 1000)"
proof -
  from generateAllListings_calls [OF assms(1)] assms(2) obtain cs w where
    cs: "synthesis_calls g imgs = Inr cs" and p: "(w, l) \<in> set cs"
    by auto
  from synthesis_calls_Inr(1) [OF cs] p obtain g1 g2 where
    "generateListing g1 w = Inr (l, g2)"
    by (fastforce simp: generated_def)
  from generateListing_price [OF this] assms(3) obtain b where
    b: "lo \<le> b" "b \<le> hi" "price_ngn l = price_of b (condition l)"
    by (auto simp: lookup_or_def)
  from assms(3) have "lookup_or PRICE_RANGES (category l) (20000, 150000) = (lo, hi)"
    by (simp add: lookup_or_def)
  from price_range_table [OF this] have "15000 \<le> lo" by simp
  from price_of_bounds [OF this b(1,2), of "condition l"] b show ?thesis
    by (auto simp: price_of_def)
qed

theorem price_bounds_witness:
  "generateAllListings (sconst 0) ''now'' [example_image_a]
     = Inr \<lparr>meta = \<lparr>totalListings = 1, totalImages = 1, categories = [''sofa''],
                     generatedAt = ''now'', priceRange_min = Some 45000,
                     priceRange_max = Some 45000\<rparr>,
            listings = [example_listing_a]\<rparr>
   \<and> map_of PRICE_RANGES (category example_listing_a) = Some (45000, 350000)
   \<and> price_ngn example_listing_a = 45000
   \<and> Math_round (of_int 45000 * (45 / 100) / 1000) * 1000 = 20000
   \<and> 0 < price_ngn example_listing_a \<and> 1000 dvd price_ngn example_listing_a
   \<and> Math_round (of_int 45000 * (45 / 100) / 1000) * 1000 \<le> price_ngn example_listing_a
   \<and> price_ngn example_listing_a \<le> Math_round (of_int 350000 * 1 / 1000) * 1000"
proof -
  have run: "generateAllListings (sconst 0) ''now'' [example_image_a]
     = Inr \<lparr>meta = \<lparr>totalListings = 1, totalImages = 1, categories = [''sofa''],
                     generatedAt = ''now'', priceRange_min = Some 45000,
                     priceRange_max = Some 45000\<rparr>,
            listings = [example_listing_a]\<rparr>"
    by (simp add: generateAllListings_def gen_defs example_listing_a_def Math_min_def Math_max_def)
  have tab: "map_of PRICE_RANGES (category example_listing_a) = Some (45000, 350000)"
    by (simp add: PRICE_RANGES_def example_listing_a_def)
  have low: "Math_round (of_int 45000 * (45 / 100) / 1000) * 1000 = 20000"
    using Math_round_div [of 100000 2025000] by simp
  from price_bounds [OF run _ tab] run tab low show ?thesis
    by (simp add: example_listing_a_def)
qed

lemma partition_of_run:
  assumes "generateAllListings g now imgs = Inr out"
  shows "concat (map images (filter (\<lambda>l. category l = c) (listings out)))
           = map img_url (filter (\<lambda>i. img_category i = c) imgs)
     \<and> (\<exists>cs. synthesis_calls g imgs = Inr cs \<and> listings out = map snd cs
           \<and> concat (map fst (filter (\<lambda>p. category (snd p) = c) cs))
               = filter (\<lambda>i. img_category i = c) imgs
           \<and> list_all (\<lambda>p. images (snd p) = map img_url (fst p)
                           \<and> list_all (\<lambda>i. img_category i = category (snd p)) (fst p)) cs)"
proof -
  from generateAllListings_calls [OF assms] obtain cs where
    cs: "synthesis_calls g imgs = Inr cs" and ls: "listings out = map snd cs"
    by blast
  note calls = synthesis_calls_Inr [OF cs]
  have img: "images (snd p) = map img_url (fst p)" if "p \<in> set cs" for p
  proof -
    from calls(1) that obtain g1 g2 where "generateListing g1 (fst p) = Inr (snd p, g2)"
      by (auto simp: generated_def)
    then show ?thesis by (rule generateListing_Inr(3))
  qed
  have "concat (map images (filter (\<lambda>l. category l = c) (listings out)))
      = concat (map (\<lambda>p. images (snd p)) (filter (\<lambda>p. category (snd p) = c) cs))"
    by (simp add: ls filter_map comp_def)
  also have "\<dots> = concat (map (\<lambda>p. map img_url (fst p)) (filter (\<lambda>p. category (snd p) = c) cs))"
    using img by (intro arg_cong [where f = concat] map_cong) auto
  also have "\<dots> = map img_url (concat (map fst (filter (\<lambda>p. category (snd p) = c) cs)))"
    by (simp add: map_concat comp_def)
  also have "\<dots> = map img_url (filter (\<lambda>i. img_category i = c) imgs)"
    by (simp add: calls(2))
  finally have urls: "concat (map images (filter (\<lambda>l. category l = c) (listings out)))
           = map img_url (filter (\<lambda>i. img_category i = c) imgs)" .
  have "list_all (\<lambda>p. images (snd p) = map img_url (fst p)
                           \<and> list_all (\<lambda>i. img_category i = category (snd p)) (fst p)) cs"
    using img calls(1) by (auto simp: list_all_iff)
  with urls cs ls calls(2) show ?thesis by blast
qed

text \<open>
  Claim C9. For every input image list without a category named like an inherited
  property, the job returns a catalog, and for every category \<open>c\<close> the \<open>images\<close> fields
  of the listings of category \<open>c\<close>, concatenated in catalog order, are exactly the locators
  of the images supplied for \<open>c\<close>, in input order: each supplied image is in one listing,
  once. The windows behind these listings concatenate to the supplied images themselves,
  every listing holds the locators of its window, and every image of a window has the
  category of the listing. The same partition holds for every catalog the job returns;
  on the other inputs the job raises the exception of the grouping step and returns none.
\<close>

theorem partition_per_category:
  "(list_all (\<lambda>i. img_category i \<notin> set object_prototype_keys) imgs \<longrightarrow>
      (\<exists>out. generateAllListings g now imgs = Inr out
         \<and> concat (map images (filter (\<lambda>l. category l = c) (listings out)))
             = map img_url (filter (\<lambda>i. img_category i = c) imgs)
         \<and> (\<exists>cs. synthesis_calls g imgs = Inr cs \<and> listings out = map snd cs
               \<and> concat (map fst (filter (\<lambda>p. category (snd p) = c) cs))
                   = filter (\<lambda>i. img_category i = c) imgs
               \<and> list_all (\<lambda>p. images (snd p) = map img_url (fst p)
                               \<and> list_all (\<lambda>i. img_category i = category (snd p)) (fst p))
                    cs)))
   \<and> (\<forall>out. generateAllListings g now imgs = Inr out \<longrightarrow>
         concat (map images (filter (\<lambda>l. category l = c) (listings out)))
           = map img_url (filter (\<lambda>i. img_category i = c) imgs)
         \<and> (\<exists>cs. synthesis_calls g imgs = Inr cs \<and> listings out = map snd cs
               \<and> concat (map fst (filter (\<lambda>p. category (snd p) = c) cs))
                   = filter (\<lambda>i. img_category i = c) imgs
               \<and> list_all (\<lambda>p. images (snd p) = map img_url (fst p)
                               \<and> list_all (\<lambda>i. img_category i = category (snd p)) (fst p))
                    cs))
   \<and> (\<forall>e. generateAllListings g now imgs = Inl e \<longleftrightarrow>
         e = NotAFunction
         \<and> \<not> list_all (\<lambda>i. img_category i \<notin> set object_prototype_keys) imgs)"
proof -
  have total: "list_all (\<lambda>i. img_category i \<notin> set object_prototype_keys) imgs \<longrightarrow>
      (\<exists>out. generateAllListings g now imgs = Inr out
         \<and> concat (map images (filter (\<lambda>l. category l = c) (listings out)))
             = map img_url (filter (\<lambda>i. img_category i = c) imgs)
         \<and> (\<exists>cs. synthesis_calls g imgs = Inr cs \<and> listings out = map snd cs
               \<and> concat (map fst (filter (\<lambda>p. category (snd p) = c) cs))
                   = filter (\<lambda>i. img_category i = c) imgs
               \<and> list_all (\<lambda>p. images (snd p) = map img_url (fst p)
                               \<and> list_all (\<lambda>i. img_category i = category (snd p)) (fst p))
                    cs))"
  proof (rule impI)
    assume keys: "list_all (\<lambda>i. img_category i \<notin> set object_prototype_keys) imgs"
    from generateAllListings_total [OF keys, of g now] obtain out where
      run: "generateAllListings g now imgs = Inr out" ..
    from run partition_of_run [OF run, of c]
    show "\<exists>out. generateAllListings g now imgs = Inr out
         \<and> concat (map images (filter (\<lambda>l. category l = c) (listings out)))
             = map img_url (filter (\<lambda>i. img_category i = c) imgs)
         \<and> (\<exists>cs. synthesis_calls g imgs = Inr cs \<and> listings out = map snd cs
               \<and> concat (map fst (filter (\<lambda>p. category (snd p) = c) cs))
                   = filter (\<lambda>i. img_category i = c) imgs
               \<and> list_all (\<lambda>p. images (snd p) = map img_url (fst p)
                               \<and> list_all (\<lambda>i. img_category i = category (snd p)) (fst p))
                    cs)"
      by (intro exI [of _ out] conjI [of "generateAllListings g now imgs = Inr out"])
  qed
  have part: "\<forall>out. generateAllListings g now imgs = Inr out \<longrightarrow>
         concat (map images (filter (\<lambda>l. category l = c) (listings out)))
             = map img_url (filter (\<lambda>i. img_category i = c) imgs)
         \<and> (\<exists>cs. synthesis_calls g imgs = Inr cs \<and> listings out = map snd cs
               \<and> concat (map fst (filter (\<lambda>p. category (snd p) = c) cs))
                   = filter (\<lambda>i. img_category i = c) imgs
               \<and> list_all (\<lambda>p. images (snd p) = map img_url (fst p)
                               \<and> list_all (\<lambda>i. img_category i = category (snd p)) (fst p))
                    cs)"
  proof (rule allI, rule impI)
    fix out
    assume run: "generateAllListings g now imgs = Inr out"
    from partition_of_run [OF run, of c]
    show "concat (map images (filter (\<lambda>l. category l = c) (listings out)))
             = map img_url (filter (\<lambda>i. img_category i = c) imgs)
         \<and> (\<exists>cs. synthesis_calls g imgs = Inr cs \<and> listings out = map snd cs
               \<and> concat (map fst (filter (\<lambda>p. category (snd p) = c) cs))
                   = filter (\<lambda>i. img_category i = c) imgs
               \<and> list_all (\<lambda>p. images (snd p) = map img_url (fst p)
                               \<and> list_all (\<lambda>i. img_category i = category (snd p)) (fst p))
                    cs)" .
  qed
  have err: "\<forall>e. generateAllListings g now imgs = Inl e \<longleftrightarrow>
         e = NotAFunction
         \<and> \<not> list_all (\<lambda>i. img_category i \<notin> set object_prototype_keys) imgs"
    by (simp add: generateAllListings_Inl list_all_iff)
  from total part err show ?thesis by (intro conjI)
qed

theorem partition_per_category_witness:
  "list_all (\<lambda>i. img_category i \<notin> set object_prototype_keys)
     [example_image_a, example_image_b]
   \<and> generateAllListings (sconst 0) ''now'' [example_image_a, example_image_b]
     = Inr \<lparr>meta = \<lparr>totalListings = 2, totalImages = 2, categories = [''sofa''],
                     generatedAt = ''now'', priceRange_min = Some 45000,
                     priceRange_max = Some 45000\<rparr>,
            listings = [example_listing_a, example_listing_b]\<rparr>
   \<and> (\<exists>out. generateAllListings (sconst 0) ''now'' [example_image_a, example_image_b]
               = Inr out
          \<and> concat (map images (filter (\<lambda>l. category l = ''sofa'') (listings out)))
              = map img_url (filter (\<lambda>i. img_category i = ''sofa'')
                  [example_image_a, example_image_b]))
   \<and> concat (map images (filter (\<lambda>l. category l = ''sofa'')
                 [example_listing_a, example_listing_b]))
       = map img_url (filter (\<lambda>i. img_category i = ''sofa'')
           [example_image_a, example_image_b])
   \<and> map img_url (filter (\<lambda>i. img_category i = ''sofa'') [example_image_a, example_image_b])
       = [''https://img/a1'', ''https://img/b2'']"
proof -
  have keys: "list_all (\<lambda>i. img_category i \<notin> set object_prototype_keys)
      [example_image_a, example_image_b]"
    by (simp add: example_image_a_def example_image_b_def object_prototype_keys_def)
  have run: "generateAllListings (sconst 0) ''now'' [example_image_a, example_image_b]
     = Inr \<lparr>meta = \<lparr>totalListings = 2, totalImages = 2, categories = [''sofa''],
                     generatedAt = ''now'', priceRange_min = Some 45000,
                     priceRange_max = Some 45000\<rparr>,
            listings = [example_listing_a, example_listing_b]\<rparr>"
    by (simp add: generateAllListings_def gen_defs example_listing_a_def example_listing_b_def
        Math_min_def Math_max_def)
  have urls: "map img_url (filter (\<lambda>i. img_category i = ''sofa'')
        [example_image_a, example_image_b]) = [''https://img/a1'', ''https://img/b2'']"
    by (simp add: example_image_a_def example_image_b_def)
  note inst = partition_per_category [of "[example_image_a, example_image_b]" "sconst 0"
      "''now''" "''sofa''"]
  from inst [THEN conjunct1, THEN mp, OF keys]
  have total: "\<exists>out. generateAllListings (sconst 0) ''now'' [example_image_a, example_image_b]
               = Inr out
          \<and> concat (map images (filter (\<lambda>l. category l = ''sofa'') (listings out)))
              = map img_url (filter (\<lambda>i. img_category i = ''sofa'')
                  [example_image_a, example_image_b])"
    by blast
  from inst [THEN conjunct2, THEN conjunct1, THEN spec, THEN mp, OF run, THEN conjunct1]
  have part: "concat (map images (filter (\<lambda>l. category l = ''sofa'')
                 [example_listing_a, example_listing_b]))
       = map img_url (filter (\<lambda>i. img_category i = ''sofa'')
           [example_image_a, example_image_b])"
    by (simp only: ListingCatalog.simps)
  from keys run total part urls show ?thesis by (intro conjI)
qed

text \<open>
  Claim C10. No run of the synthesizer reads \<open>images[0]\<close> of an empty window or draws a
  window size from an empty range: the only exception a run can raise is the one of the
  grouping step on a category named like an inherited property, and without such a
  category the run returns. Every window passed to \<open>generateListing\<close> has between one and
  five images, and the category of the listing is that of the first image and of every
  image of the window.
\<close>

theorem windows_nonempty:
  "synthesis_calls g imgs \<noteq> Inl ReadOfUndefined
   \<and> synthesis_calls g imgs \<noteq> Inl FakerError
   \<and> (list_all (\<lambda>i. img_category i \<notin> set object_prototype_keys) imgs
        \<longrightarrow> (\<exists>cs. synthesis_calls g imgs = Inr cs))
   \<and> (\<forall>cs. synthesis_calls g imgs = Inr cs \<longrightarrow>
         list_all (\<lambda>p. fst p \<noteq> [] \<and> length (fst p) \<le> 5
                       \<and> category (snd p) = img_category (hd (fst p))
                       \<and> list_all (\<lambda>i. img_category i = category (snd p)) (fst p)) cs)"
proof -
  have err: "synthesis_calls g imgs \<noteq> Inl ReadOfUndefined"
    "synthesis_calls g imgs \<noteq> Inl FakerError"
    by (simp_all add: synthesis_calls_Inl)
  have tot: "\<exists>cs. synthesis_calls g imgs = Inr cs"
    if "list_all (\<lambda>i. img_category i \<notin> set object_prototype_keys) imgs"
  proof (cases "synthesis_calls g imgs")
    case (Inl e)
    with that show ?thesis by (auto simp: synthesis_calls_Inl list_all_iff)
  next
    case (Inr cs)
    then show ?thesis by blast
  qed
  have win: "list_all (\<lambda>p. fst p \<noteq> [] \<and> length (fst p) \<le> 5
                       \<and> category (snd p) = img_category (hd (fst p))
                       \<and> list_all (\<lambda>i. img_category i = category (snd p)) (fst p)) cs"
    if cs: "synthesis_calls g imgs = Inr cs" for cs
    unfolding list_all_iff
  proof
    fix p assume p: "p \<in> set cs"
    from synthesis_calls_Inr(1) [OF cs] p have
      a: "length (fst p) \<le> 5" "\<forall>i\<in>set (fst p). img_category i = category (snd p)"
      and "generated p" by auto
    then obtain g1 g2 where "generateListing g1 (fst p) = Inr (snd p, g2)"
      by (auto simp: generated_def)
    from generateListing_Inr(1,2) [OF this] a
    show "fst p \<noteq> [] \<and> length (fst p) \<le> 5 \<and> category (snd p) = img_category (hd (fst p))
        \<and> (\<forall>i\<in>set (fst p). img_category i = category (snd p))"
      by simp
  qed
  from err tot win show ?thesis by blast
qed

theorem windows_nonempty_witness:
  "synthesis_calls (sconst 0) [example_image_a, example_image_b]
     = Inr [([example_image_a], example_listing_a), ([example_image_b], example_listing_b)]
   \<and> list_all (\<lambda>i. img_category i \<notin> set object_prototype_keys)
        [example_image_a, example_image_b]
   \<and> list_all (\<lambda>p. fst p \<noteq> [] \<and> length (fst p) \<le> 5
                   \<and> category (snd p) = img_category (hd (fst p))
                   \<and> list_all (\<lambda>i. img_category i = category (snd p)) (fst p))
        [([example_image_a], example_listing_a), ([example_image_b], example_listing_b)]"
proof -
  have run: "synthesis_calls (sconst 0) [example_image_a, example_image_b]
     = Inr [([example_image_a], example_listing_a), ([example_image_b], example_listing_b)]"
    by (simp add: gen_defs example_listing_a_def example_listing_b_def)
  have keys: "list_all (\<lambda>i. img_category i \<notin> set object_prototype_keys)
        [example_image_a, example_image_b]"
    by (simp add: example_image_a_def example_image_b_def object_prototype_keys_def)
  from windows_nonempty [of "sconst 0" "[example_image_a, example_image_b]",
      THEN conjunct2, THEN conjunct2, THEN conjunct2, THEN spec, THEN mp, OF run] run keys
  show ?thesis by (intro conjI)
qed

text \<open>
  Claim C7, as amended. The \<open>tags\<close> of a listing are, without repetition, the tags of the
  first image of its window, the category, the materials and the condition. The tags of
  the other images of the window are not read.
\<close>

theorem tags_of_first_image:
  assumes "synthesis_calls g imgs = Inr cs" and "(w, l) \<in> set cs"
  shows "set (tags l) = set (img_tags (hd w)) \<union> {category l} \<union> set (materials l)
                         \<union> {condition_str (condition l)}
     \<and> distinct (tags l) \<and> w \<noteq> [] \<and> images l = map img_url w"
proof -
  from synthesis_calls_Inr(1) [OF assms(1)] assms(2) obtain g1 g2 where
    "generateListing g1 w = Inr (l, g2)"
    by (fastforce simp: generated_def)
  from generateListing_Inr [OF this] show ?thesis
    by (auto simp: set_js_set distinct_js_set)
qed

theorem tags_of_first_image_witness:
  "synthesis_calls (1 ## sconst 0) [example_image_a, example_image_b]
     = Inr [([example_image_a, example_image_b], example_listing_ab)]
   \<and> set (tags example_listing_ab)
       = set (img_tags (hd [example_image_a, example_image_b])) \<union> {category example_listing_ab}
         \<union> set (materials example_listing_ab)
         \<union> {condition_str (condition example_listing_ab)}
   \<and> distinct (tags example_listing_ab)"
proof -
  have run: "synthesis_calls (1 ## sconst 0) [example_image_a, example_image_b]
     = Inr [([example_image_a, example_image_b], example_listing_ab)]"
    by (simp add: gen_defs example_listing_ab_def)
  have "([example_image_a, example_image_b], example_listing_ab)
      \<in> set [([example_image_a, example_image_b], example_listing_ab)]"
    by simp
  from tags_of_first_image [OF run this] run show ?thesis by (intro conjI) simp_all
qed

text \<open>
  Claim C7 as stated fails: a window of two images, the second tagged \<open>grey\<close>, gives a
  listing without that tag.
\<close>

theorem tags_of_all_images_counterexample:
  "synthesis_calls (1 ## sconst 0) [example_image_a, example_image_b]
     = Inr [([example_image_a, example_image_b], example_listing_ab)]
   \<and> ''grey'' \<in> set (img_tags example_image_b)
   \<and> ''grey'' \<notin> set (tags example_listing_ab)"
  by (simp add: gen_defs example_listing_ab_def)

text \<open>
  Claim C6, as amended. A catalog without an \<open>images\<close> property, or with an empty
  \<open>images\<close> array, is not an error: the job writes a catalog of no listings and exits
  with status 0. The job exits with status 1 when the file cannot be read, is not JSON,
  is \<open>null\<close>, or holds an \<open>images\<close> value that is not an array.
\<close>

theorem catalog_exit_status:
  "main_listings g now (Json NoImages)
     = (0, Some \<lparr>meta = \<lparr>totalListings = 0, totalImages = 0, categories = [],
                         generatedAt = now, priceRange_min = None, priceRange_max = None\<rparr>,
                listings = []\<rparr>)
   \<and> main_listings g now (Json (ImagesArray []))
     = (0, Some \<lparr>meta = \<lparr>totalListings = 0, totalImages = 0, categories = [],
                         generatedAt = now, priceRange_min = None, priceRange_max = None\<rparr>,
                listings = []\<rparr>)
   \<and> main_listings g now Unreadable = (1, None)
   \<and> main_listings g now NotJson = (1, None)
   \<and> main_listings g now (Json JsonNull) = (1, None)
   \<and> main_listings g now (Json ImagesOther) = (1, None)"
  by (simp add: main_listings_def generateAllListings_def synthesis_calls_def entries_def
      Math_min_def Math_max_def)

theorem catalog_exit_status_witness:
  "main_listings (sconst 0) ''now'' (Json NoImages)
     = (0, Some \<lparr>meta = \<lparr>totalListings = 0, totalImages = 0, categories = [],
                         generatedAt = ''now'', priceRange_min = None,
                         priceRange_max = None\<rparr>,
                listings = []\<rparr>)
   \<and> main_listings (sconst 0) ''now'' NotJson = (1, None)"
  using catalog_exit_status [of "sconst 0" "''now''"] by simp

text \<open>
  Claim C6 as stated fails: on a catalog without \<open>images\<close>, and on one with an empty
  array, the exit status is 0.
\<close>

theorem empty_catalog_counterexample:
  "fst (main_listings (sconst 0) ''2026-01-01T00:00:00.000Z'' (Json NoImages)) = 0
   \<and> fst (main_listings (sconst 0) ''2026-01-01T00:00:00.000Z'' (Json (ImagesArray []))) = 0"
  by (simp add: main_listings_def generateAllListings_def synthesis_calls_def entries_def
      Math_min_def Math_max_def)

section \<open>Image fetcher: the claims\<close>

lemma upt3: "[0..<3] = [0, Suc 0, Suc (Suc 0)]"
  by (simp add: upt_rec)

lemmas retry_unfold =
  retry_loop.simps [of _ _ 0] retry_loop.simps [of _ _ "Suc 0"]
  retry_loop.simps [of _ _ "Suc (Suc 0)"] retry_loop.simps [of _ _ "Suc (Suc (Suc 0))"]

text \<open>With its key configured, a fetch is the retry loop on the provider's endpoint.\<close>

lemma fetchUnsplash_retry:
  "unsplashKey e \<noteq> [] \<Longrightarrow>
     fetchUnsplash e query page
       = (map (unsplash_image query)
            (fst (retry_loop (unsplash_api e query page) (Request Unsplash query page) 0 [])),
          snd (retry_loop (unsplash_api e query page) (Request Unsplash query page) 0 []))"
  by (simp add: fetchUnsplash_def split: prod.splits)

lemma fetchPexels_retry:
  "pexelsKey e \<noteq> [] \<Longrightarrow>
     fetchPexels e query page
       = (map (pexels_image query)
            (fst (retry_loop (pexels_api e query page) (Request Pexels query page) 0 [])),
          snd (retry_loop (pexels_api e query page) (Request Pexels query page) 0 []))"
  by (simp add: fetchPexels_def split: prod.splits)

text \<open>
  Claim C5, as amended. Every failed request, a 429 as much as any other failure, takes
  one of the three attempts: a call sends one request more than the failures that precede
  the first answer, and never more than three; after three failures of any kind it
  returns the empty list. The failure of the request number \<open>k\<close> (counted from 1) is
  followed by a pause of 60 s and then one of \<open>2 s * k\<close> when it is a 429, by one pause of
  \<open>2 s * k\<close> when it is another failure and \<open>k < 3\<close>, and by no pause when it is another
  failure and \<open>k = 3\<close>.
\<close>

theorem retry_policy:
  "length (filter (\<lambda>x. x = Request src query page)
       (snd (retry_loop api (Request src query page) 0 [])))
     = min MAX_RETRIES (failed_attempts api + 1)
   \<and> pauses (snd (retry_loop api (Request src query page) 0 []))
     = concat (map (backoff api) [0..<failed_attempts api])
   \<and> fst (retry_loop api (Request src query page) 0 [])
     = (if failed_attempts api < MAX_RETRIES then answer (api (failed_attempts api)) else [])"
  by (cases "api 0"; cases "api (Suc 0)"; cases "api (Suc (Suc 0))")
    (simp_all add: retry_unfold MAX_RETRIES_def failed_attempts_def backoff_def upt3
      numeral_3_eq_3)

theorem retry_policy_witness:
  "length (filter (\<lambda>x. x = Request Unsplash ''sofa'' 1)
       (snd (retry_loop (unsplash_api rate_limited_env ''sofa'' 1) (Request Unsplash ''sofa'' 1) 0 [])))
     = 3
   \<and> pauses (snd (retry_loop (unsplash_api rate_limited_env ''sofa'' 1) (Request Unsplash ''sofa'' 1) 0 []))
     = [60000, 2000, 60000, 4000, 60000, 6000]
   \<and> fst (retry_loop (unsplash_api rate_limited_env ''sofa'' 1) (Request Unsplash ''sofa'' 1) 0 []) = []"
  using retry_policy [of Unsplash "''sofa''" 1 "unsplash_api rate_limited_env ''sofa'' 1"]
  by (simp add: rate_limited_env_def failed_attempts_def backoff_def MAX_RETRIES_def upt3
      numeral_3_eq_3)

text \<open>
  Claim C5 as stated fails: a provider that answers 429 three times and would then answer
  with a photo is asked three times only, the result is empty, and each pause of 60 s is
  followed by the pause of \<open>2 s * k\<close>.
\<close>

theorem rate_limit_consumes_retries_counterexample:
  "fetchUnsplash rate_limited_env ''sofa'' 1
     = ([], [Request Unsplash ''sofa'' 1, Sleep 60000, Sleep 2000,
             Request Unsplash ''sofa'' 1, Sleep 60000, Sleep 4000,
             Request Unsplash ''sofa'' 1, Sleep 60000, Sleep 6000])
   \<and> fetchPexels rate_limited_env ''sofa'' 1
     = ([], [Request Pexels ''sofa'' 1, Sleep 60000, Sleep 2000,
             Request Pexels ''sofa'' 1, Sleep 60000, Sleep 4000,
             Request Pexels ''sofa'' 1, Sleep 60000, Sleep 6000])
   \<and> unsplash_api rate_limited_env ''sofa'' 1 3 = Ok [example_unsplash_photo]"
  by (simp add: fetchUnsplash_def fetchPexels_def rate_limited_env_def retry_unfold
      MAX_RETRIES_def numeral_3_eq_3)


lemma string_of_nat_42: "string_of_nat 42 = ''42''"
  by code_simp

lemma map_set_keys: "fst ` set (map_set m k v) = insert k (fst ` set m)"
  by (induction m k v rule: map_set.induct) auto

lemma map_set_distinct: "distinct (map fst m) \<Longrightarrow> distinct (map fst (map_set m k v))"
  by (induction m k v rule: map_set.induct) (auto simp: map_set_keys)

lemma map_of_map_set: "map_of (map_set m k v) x = (if x = k then Some v else map_of m x)"
  by (induction m k v rule: map_set.induct) auto

lemma map_set_subset: "set (map_set m k v) \<subseteq> insert (k, v) (set m)"
  by (induction m k v rule: map_set.induct) auto

lemma fold_map_set_distinct:
  "distinct (map fst m) \<Longrightarrow> distinct (map fst (fold (\<lambda>(k, v) m. map_set m k v) ps m))"
proof (induction ps arbitrary: m)
  case Nil
  then show ?case by simp
next
  case (Cons p ps)
  obtain k v where p: "p = (k, v)" by (cases p)
  from Cons.IH [OF map_set_distinct [OF Cons.prems], of k v] show ?case by (simp add: p)
qed

lemma fold_map_set_map_of:
  "map_of (fold (\<lambda>(k, v) m. map_set m k v) ps m) x
     = (case map_of (rev ps) x of Some y \<Rightarrow> Some y | None \<Rightarrow> map_of m x)"
proof (induction ps arbitrary: m)
  case Nil
  show ?case by simp
next
  case (Cons p ps)
  obtain k v where p: "p = (k, v)" by (cases p)
  show ?case
    by (simp add: p Cons.IH map_of_map_set map_add_def split: option.splits)
qed

lemma fold_map_set_subset:
  "set (fold (\<lambda>(k, v) m. map_set m k v) ps m) \<subseteq> set m \<union> set ps"
proof (induction ps arbitrary: m)
  case Nil
  show ?case by simp
next
  case (Cons p ps)
  obtain k v where p: "p = (k, v)" by (cases p)
  have "set (fold (\<lambda>(k, v) m. map_set m k v) (p # ps) m) \<subseteq> set (map_set m k v) \<union> set ps"
    using Cons.IH [of "map_set m k v"] by (simp add: p)
  also have "\<dots> \<subseteq> insert (k, v) (set m) \<union> set ps"
    using map_set_subset [of m k v] by blast
  finally show ?case by (simp add: p)
qed

lemma js_map_fold:
  "distinct (map fst (js_map ps))" "map_of (js_map ps) = map_of (rev ps)"
  "set (js_map ps) \<subseteq> set ps"
proof -
  show "distinct (map fst (js_map ps))"
    using fold_map_set_distinct [of "[]" ps] by (simp add: js_map_def)
  show "map_of (js_map ps) = map_of (rev ps)"
  proof
    fix x show "map_of (js_map ps) x = map_of (rev ps) x"
      by (simp add: js_map_def fold_map_set_map_of split: option.splits)
  qed
  show "set (js_map ps) \<subseteq> set ps"
    using fold_map_set_subset [of ps "[]"] by (simp add: js_map_def)
qed

lemma map_of_keyed: "map_of (map (\<lambda>x. (f x, x)) xs) k = find (\<lambda>y. f y = k) xs"
  by (induction xs) auto

lemma find_key: "find (\<lambda>y. f y = k) xs = Some x \<Longrightarrow> f x = k"
  by (induction xs) (auto split: if_splits)

lemma uniqueImages_mem:
  "x \<in> set (uniqueImages imgs) \<longleftrightarrow> find (\<lambda>y. im_id y = im_id x) (rev imgs) = Some x"
proof -
  let ?ps = "map (\<lambda>img. (im_id img, img)) imgs"
  note d = js_map_fold(1) [of ?ps] and m = js_map_fold(2) [of ?ps]
    and sub = js_map_fold(3) [of ?ps]
  have "x \<in> set (uniqueImages imgs) \<longleftrightarrow> (\<exists>k. (k, x) \<in> set (js_map ?ps))"
  proof
    assume "x \<in> set (uniqueImages imgs)"
    then obtain p where p: "p \<in> set (js_map ?ps)" "x = snd p"
      by (auto simp: uniqueImages_def)
    then have "(fst p, x) \<in> set (js_map ?ps)" by simp
    then show "\<exists>k. (k, x) \<in> set (js_map ?ps)" ..
  next
    assume "\<exists>k. (k, x) \<in> set (js_map ?ps)"
    then obtain k where "(k, x) \<in> set (js_map ?ps)" ..
    then have "snd (k, x) \<in> snd ` set (js_map ?ps)" by (rule imageI)
    then show "x \<in> set (uniqueImages imgs)" by (simp add: uniqueImages_def)
  qed
  also have "\<dots> \<longleftrightarrow> (\<exists>k. map_of (js_map ?ps) k = Some x)"
    using d by simp
  also have "\<dots> \<longleftrightarrow> (\<exists>k. find (\<lambda>y. im_id y = k) (rev imgs) = Some x)"
    by (simp add: m map_of_keyed rev_map)
  also have "\<dots> \<longleftrightarrow> find (\<lambda>y. im_id y = im_id x) (rev imgs) = Some x"
    using find_key [of im_id _ "rev imgs" x] by blast
  finally show ?thesis .
qed

lemma uniqueImages_ids:
  "distinct (map im_id (uniqueImages imgs))"
  "set (map im_id (uniqueImages imgs)) = set (map im_id imgs)"
proof -
  let ?ps = "map (\<lambda>img. (im_id img, img)) imgs"
  note d = js_map_fold(1) [of ?ps] and m = js_map_fold(2) [of ?ps]
    and sub = js_map_fold(3) [of ?ps]
  have ids: "map im_id (uniqueImages imgs) = map fst (js_map ?ps)"
    unfolding uniqueImages_def map_map using sub by (intro map_cong) auto
  show "distinct (map im_id (uniqueImages imgs))" by (simp add: ids d)
  have "fst ` set (js_map ?ps) = dom (map_of (js_map ?ps))" by (simp add: dom_map_of_conv_image_fst)
  also have "\<dots> = fst ` set (rev ?ps)" by (simp only: m dom_map_of_conv_image_fst)
  finally show "set (map im_id (uniqueImages imgs)) = set (map im_id imgs)"
    by (simp add: ids image_image)
qed

lemma uniqueImages_inj:
  assumes "a \<in> set (uniqueImages imgs)" and "b \<in> set (uniqueImages imgs)"
    and "im_id a = im_id b"
  shows "a = b"
proof -
  have "inj_on im_id (set (uniqueImages imgs))"
    using uniqueImages_ids(1) [of imgs] by (simp only: distinct_map)
  from inj_onD [OF this assms(3,1,2)] show ?thesis .
qed

text \<open>
  Claim C2, as amended. Finalization removes duplicates by the raw \<open>id\<close> alone: the ids of
  the output are pairwise different and are the ids of the input, and a record is in the
  output exactly when it is the last record of the input with its id. Two records of the
  output with the same id are the same record, whatever their sources.
\<close>

theorem dedup_by_raw_id:
  "distinct (map im_id (uniqueImages imgs))
   \<and> set (map im_id (uniqueImages imgs)) = set (map im_id imgs)
   \<and> (\<forall>x. x \<in> set (uniqueImages imgs)
          \<longleftrightarrow> find (\<lambda>y. im_id y = im_id x) (rev imgs) = Some x)
   \<and> (\<forall>a b. a \<in> set (uniqueImages imgs) \<and> b \<in> set (uniqueImages imgs) \<and> im_id a = im_id b
          \<longrightarrow> a = b)"
proof -
  have 1: "distinct (map im_id (uniqueImages imgs))" by (rule uniqueImages_ids(1))
  have 2: "set (map im_id (uniqueImages imgs)) = set (map im_id imgs)"
    by (rule uniqueImages_ids(2))
  have 3: "\<forall>x. x \<in> set (uniqueImages imgs)
      \<longleftrightarrow> find (\<lambda>y. im_id y = im_id x) (rev imgs) = Some x"
    by (rule allI) (rule uniqueImages_mem)
  have 4: "\<forall>a b. a \<in> set (uniqueImages imgs) \<and> b \<in> set (uniqueImages imgs) \<and> im_id a = im_id b
          \<longrightarrow> a = b"
    using uniqueImages_inj [of _ imgs] by blast
  from 1 2 3 4 show ?thesis by (intro conjI)
qed

theorem dedup_by_raw_id_witness:
  "uniqueImages [example_unsplash_image, colliding_pexels_image] = [colliding_pexels_image]
   \<and> distinct (map im_id [colliding_pexels_image])
   \<and> set (map im_id [colliding_pexels_image])
       = set (map im_id [example_unsplash_image, colliding_pexels_image])"
proof -
  have run: "uniqueImages [example_unsplash_image, colliding_pexels_image]
      = [colliding_pexels_image]"
    by (simp add: uniqueImages_def js_map_def example_unsplash_image_def
        colliding_pexels_image_def unsplash_image_def pexels_image_def
        example_unsplash_photo_def example_pexels_photo_def string_of_nat_42)
  from dedup_by_raw_id [of "[example_unsplash_image, colliding_pexels_image]"] run
  show ?thesis by (simp only:)
qed

text \<open>
  Claim C2 as stated fails: an Unsplash record and a Pexels record with the same id are
  merged, and the Unsplash record is not in the output.
\<close>

theorem source_qualified_dedup_counterexample:
  "im_id example_unsplash_image = im_id colliding_pexels_image
   \<and> im_source example_unsplash_image = Unsplash
   \<and> im_source colliding_pexels_image = Pexels
   \<and> uniqueImages [example_unsplash_image, colliding_pexels_image] = [colliding_pexels_image]
   \<and> example_unsplash_image \<notin> set [colliding_pexels_image]"
  by (simp add: uniqueImages_def js_map_def example_unsplash_image_def
      colliding_pexels_image_def unsplash_image_def pexels_image_def
      example_unsplash_photo_def example_pexels_photo_def string_of_nat_42)

text \<open>
  Whenever the deduplicated list has an Unsplash image, the file at \<open>OUTPUT_FILE\<close> holds
  the Unsplash images only after \<open>finalize\<close>.
\<close>

lemma finalize_output_file:
  assumes "filter (\<lambda>img. im_source img = Unsplash)
             (uniqueImages (progress_images (progress s))) \<noteq> []"
  shows "images_at (files (finalize now s)) OUTPUT_FILE
           = Some (filter (\<lambda>img. im_source img = Unsplash)
                     (uniqueImages (progress_images (progress s))))"
  using assms
  by (simp add: finalize_def Let_def images_at_def OUTPUT_FILE_def PEXELS_OUTPUT_def
      PROGRESS_FILE_def)

text \<open>
  Claim C3 fails on the code. With one Unsplash image and one Pexels image fetched, both
  are kept by the deduplication, but the file at \<open>OUTPUT_FILE\<close>, written first with both
  images (\<open>Save main output\<close>), is written again with the Unsplash images alone: after
  finalization no file holds the combined list.
\<close>

theorem combined_file_overwritten:
  "map im_id (uniqueImages (progress_images (progress
       (fetchAll example_env ''2026-01-01T00:00:00.000Z'' 2 Map.empty)))) = [''42'', ''7'']
   \<and> images_at (files (fetchAll example_env ''2026-01-01T00:00:00.000Z'' 2 Map.empty)) OUTPUT_FILE
       = Some [example_unsplash_image]
   \<and> images_at (files (fetchAll example_env ''2026-01-01T00:00:00.000Z'' 2 Map.empty)) PEXELS_OUTPUT
       = Some [example_pexels_image]"
  by code_simp

text \<open>The skip test never holds for the category recorded as \<open>lastCategory\<close>.\<close>

lemma skip_category_last: "\<not> skip_category p (lastCategory p)"
  by (simp add: skip_category_def)

text \<open>
  Claim C1 fails on the code. A run that resumes from a checkpoint whose \<open>lastCategory\<close> is
  \<open>sofa\<close> does not skip \<open>sofa\<close>: its first request is page 1 of the query \<open>sofa\<close>, and the
  image of the checkpoint is fetched a second time.
\<close>

theorem last_category_fetched_again:
  "lastCategory (progress (loadProgress resume_disk)) = ''sofa''
   \<and> events (fetchAll example_env ''2026-01-01T00:00:00.000Z'' 2 resume_disk)
       = [Request Unsplash ''sofa'' 1, Sleep 1100]
   \<and> map im_id (progress_images (progress
        (fetchAll example_env ''2026-01-01T00:00:00.000Z'' 2 resume_disk))) = [''42'', ''42'']"
  by code_simp

lemma retry_loop_events:
  "\<exists>more. snd (retry_loop api req r ev) = ev @ more
      \<and> set more \<subseteq> insert req (range Sleep)
      \<and> (r < MAX_RETRIES \<longrightarrow> req \<in> set more)"
proof (induction api req r ev rule: retry_loop.induct)
  case (1 api req r ev)
  show ?case
  proof (cases "r < MAX_RETRIES")
    case False
    then show ?thesis by (simp add: retry_loop.simps [of api req r ev])
  next
    case True
    show ?thesis
    proof (cases "api r")
      case (Ok photos)
      with True show ?thesis by (simp add: retry_loop.simps [of api req r ev])
    next
      case TooManyRequests
      from "1.IH"(1) [OF True TooManyRequests] obtain more where
        "snd (retry_loop api req (r + 1) (ev @ [req, Sleep 60000, Sleep (2000 * (r + 1))]))
           = (ev @ [req, Sleep 60000, Sleep (2000 * (r + 1))]) @ more"
        "set more \<subseteq> insert req (range Sleep)"
        by blast
      with True TooManyRequests show ?thesis
        by (intro exI [of _ "[req, Sleep 60000, Sleep (2000 * (r + 1))] @ more"])
          (auto simp: retry_loop.simps [of api req r ev])
    next
      case Failed
      show ?thesis
      proof (cases "MAX_RETRIES \<le> r + 1")
        case True
        with \<open>r < MAX_RETRIES\<close> Failed show ?thesis
          by (simp add: retry_loop.simps [of api req r ev])
      next
        case False
        from "1.IH"(2) [OF \<open>r < MAX_RETRIES\<close> Failed False] obtain more where
          "snd (retry_loop api req (r + 1) (ev @ [req, Sleep (2000 * (r + 1))]))
             = (ev @ [req, Sleep (2000 * (r + 1))]) @ more"
          "set more \<subseteq> insert req (range Sleep)"
          by blast
        with \<open>r < MAX_RETRIES\<close> Failed False show ?thesis
          by (intro exI [of _ "[req, Sleep (2000 * (r + 1))] @ more"])
            (auto simp: retry_loop.simps [of api req r ev])
      qed
    qed
  qed
qed

lemma fetchUnsplash_events:
  "Request Pexels q p \<notin> set (snd (fetchUnsplash e query page))"
proof -
  obtain more where
    "snd (retry_loop (unsplash_api e query page) (Request Unsplash query page) 0 []) = [] @ more"
    "set more \<subseteq> insert (Request Unsplash query page) (range Sleep)"
    using retry_loop_events [of "unsplash_api e query page" "Request Unsplash query page" 0 "[]"]
    by blast
  then show ?thesis
    by (auto simp: fetchUnsplash_def split: prod.splits)
qed

lemma fetchPexels_events:
  "pexelsKey e \<noteq> [] \<Longrightarrow> Request Pexels query page \<in> set (snd (fetchPexels e query page))"
  using retry_loop_events [of "pexels_api e query page" "Request Pexels query page" 0 "[]"]
  by (auto simp: fetchPexels_def MAX_RETRIES_def split: prod.splits)

lemma absorb_effect:
  "absorb cat imgs (s, cc, f) = (s', cc', f') \<Longrightarrow>
     events s' = events s @ (if imgs = [] then [] else [Sleep RATE_LIMIT_DELAY])
     \<and> cc' = cc + length imgs \<and> f' = f + length imgs
     \<and> completed (progress s') = completed (progress s) + length imgs"
  by (auto simp: absorb_def Let_def sleep_def saveProgress_def split: if_splits)

lemma unsplash_step_effect:
  assumes "unsplash_step e cat query page (s, cc, f) = (s1, cc1, f1)"
  shows "\<exists>ev. events s1 = events s @ ev \<and> Request Pexels q p \<notin> set ev"
    and "f1 = f + length (fst (fetchUnsplash e query page))"
    and "completed (progress s1) = completed (progress s) + length (fst (fetchUnsplash e query page))"
proof -
  show "\<exists>ev. events s1 = events s @ ev \<and> Request Pexels q p \<notin> set ev"
  proof (cases "unsplashKey e = []")
    case True
    with assms show ?thesis by (simp add: unsplash_step_def)
  next
    case False
    obtain imgs ev where fu: "fetchUnsplash e query page = (imgs, ev)"
      by (cases "fetchUnsplash e query page")
    with assms False have
      "absorb cat imgs (s\<lparr>events := events s @ ev\<rparr>, cc, f) = (s1, cc1, f1)"
      by (simp add: unsplash_step_def)
    from absorb_effect [OF this] fetchUnsplash_events [of q p e query page] fu
    show ?thesis by (auto simp: RATE_LIMIT_DELAY_def)
  qed
  show "f1 = f + length (fst (fetchUnsplash e query page))"
    "completed (progress s1) = completed (progress s) + length (fst (fetchUnsplash e query page))"
  proof -
    obtain imgs ev where fu: "fetchUnsplash e query page = (imgs, ev)"
      by (cases "fetchUnsplash e query page")
    show "f1 = f + length (fst (fetchUnsplash e query page))"
    proof (cases "unsplashKey e = []")
      case True
      with assms show ?thesis by (simp add: unsplash_step_def fetchUnsplash_def)
    next
      case False
      with assms fu have
        "absorb cat imgs (s\<lparr>events := events s @ ev\<rparr>, cc, f) = (s1, cc1, f1)"
        by (simp add: unsplash_step_def)
      from absorb_effect [OF this] fu show ?thesis by simp
    qed
    show "completed (progress s1)
        = completed (progress s) + length (fst (fetchUnsplash e query page))"
    proof (cases "unsplashKey e = []")
      case True
      with assms show ?thesis by (simp add: unsplash_step_def fetchUnsplash_def)
    next
      case False
      with assms fu have
        "absorb cat imgs (s\<lparr>events := events s @ ev\<rparr>, cc, f) = (s1, cc1, f1)"
        by (simp add: unsplash_step_def)
      from absorb_effect [OF this] fu show ?thesis by simp
    qed
  qed
qed

lemma pexels_step_effect:
  assumes "pexels_step e targetTotal cat perQuery query page (s1, cc1, f1) = (s2, cc2, f2)"
  shows "\<exists>ev. events s2 = events s1 @ ev
     \<and> (Request Pexels query page \<in> set ev
          \<longleftrightarrow> pexelsKey e \<noteq> [] \<and> f1 < perQuery \<and> completed (progress s1) < targetTotal)"
proof (cases "f1 < perQuery \<and> pexelsKey e \<noteq> [] \<and> completed (progress s1) < targetTotal")
  case False
  with assms have "s2 = s1" by (auto simp: pexels_step_def)
  with False show ?thesis by auto
next
  case True
  obtain imgs ev where fp: "fetchPexels e query page = (imgs, ev)"
    by (cases "fetchPexels e query page")
  with assms True have
    "absorb cat imgs (s1\<lparr>events := events s1 @ ev\<rparr>, cc1, f1) = (s2, cc2, f2)"
    by (simp add: pexels_step_def)
  from absorb_effect [OF this] fetchPexels_events [of e query page] fp True
  show ?thesis by auto
qed

text \<open>
  Claim C4, as amended. In one round of the page loop the events of the run are only
  extended, and Pexels is asked for the page exactly when it is configured and, with the
  images that Unsplash returned for this page counted in (none when Unsplash is not
  configured), the quota of the query and the total target are both still unmet. So Pexels
  is asked after an empty or missing Unsplash page, and also after a non-empty one that
  leaves the quota unfilled; it is not asked once the Unsplash page fills the quota or
  reaches the target.
\<close>

theorem pexels_queried_iff:
  "(\<exists>new. events (fst (page_body e targetTotal cat perQuery query page
                        (s, categoryCount, fetchedForQuery))) = events s @ new)
   \<and> (Request Pexels query page
        \<in> set (drop (length (events s))
                 (events (fst (page_body e targetTotal cat perQuery query page
                                (s, categoryCount, fetchedForQuery)))))
      \<longleftrightarrow> pexelsKey e \<noteq> []
          \<and> fetchedForQuery + length (fst (fetchUnsplash e query page)) < perQuery
          \<and> completed (progress s) + length (fst (fetchUnsplash e query page)) < targetTotal)"
proof -
  obtain s1 cc1 f1 where
    u: "unsplash_step e cat query page (s, categoryCount, fetchedForQuery) = (s1, cc1, f1)"
    by (cases "unsplash_step e cat query page (s, categoryCount, fetchedForQuery)")
  obtain s2 cc2 f2 where
    p: "pexels_step e targetTotal cat perQuery query page (s1, cc1, f1) = (s2, cc2, f2)"
    by (cases "pexels_step e targetTotal cat perQuery query page (s1, cc1, f1)")
  have body: "fst (page_body e targetTotal cat perQuery query page
                 (s, categoryCount, fetchedForQuery)) = s2"
    by (simp add: page_body_def u p)
  from unsplash_step_effect(1) [OF u, of query page] obtain evu where
    evu: "events s1 = events s @ evu" "Request Pexels query page \<notin> set evu"
    by blast
  from pexels_step_effect [OF p] obtain evp where
    evp: "events s2 = events s1 @ evp"
      "Request Pexels query page \<in> set evp
         \<longleftrightarrow> pexelsKey e \<noteq> [] \<and> f1 < perQuery \<and> completed (progress s1) < targetTotal"
    by blast
  have ev: "events s2 = events s @ (evu @ evp)" by (simp add: evu evp)
  then have "drop (length (events s)) (events s2) = evu @ evp" by simp
  with ev evu(2) evp(2) unsplash_step_effect(2,3) [OF u] show ?thesis
    by (simp only: body) auto
qed

theorem pexels_queried_iff_witness:
  "Request Pexels ''sofa'' 1
     \<in> set (drop (length (events (loadProgress Map.empty)))
              (events (fst (page_body example_env 800 ''sofa'' 38 ''sofa'' 1
                             (loadProgress Map.empty, 0, 0)))))
   \<and> pexelsKey example_env \<noteq> []
   \<and> 0 + length (fst (fetchUnsplash example_env ''sofa'' 1)) < 38
   \<and> completed (progress (loadProgress Map.empty))
        + length (fst (fetchUnsplash example_env ''sofa'' 1)) < 800"
proof -
  have rhs: "pexelsKey example_env \<noteq> []
      \<and> 0 + length (fst (fetchUnsplash example_env ''sofa'' 1)) < 38
      \<and> completed (progress (loadProgress Map.empty))
           + length (fst (fetchUnsplash example_env ''sofa'' 1)) < 800"
    by code_simp
  from pexels_queried_iff [THEN conjunct2, THEN iffD2, OF rhs] rhs show ?thesis
    by (rule conjI)
qed

text \<open>
  Claim C4 as stated fails: Unsplash returns one image for page 1, which leaves the
  quota of 38 unfilled, and Pexels is asked for the same page before the page counter
  advances.
\<close>

theorem pexels_after_nonempty_page_counterexample:
  "fst (fetchUnsplash example_env ''sofa'' 1) = [example_unsplash_image]
   \<and> events (fst (page_body example_env 800 ''sofa'' 38 ''sofa'' 1
                    (loadProgress Map.empty, 0, 0)))
       = [Request Unsplash ''sofa'' 1, Sleep 1100, Request Pexels ''sofa'' 1, Sleep 1100]"
  by code_simp

end
